(* ===== verification/Prelude.thy ===== *)
theory Prelude
  imports Complex_Main
begin

text \<open>
  Shared vocabulary of the development: the collections the component theories fill, the list
  operations of JavaScript arrays the sources use (\<open>slice\<close> with a negative start, nullish
  coalescing), and the interface of a bounded log, which seven components of the console
  implement in three different ways.
\<close>

named_theorems js_simps \<open>equations that evaluate the language primitives\<close>
named_theorems inv_intros \<open>operations preserve the invariant of their component\<close>

section \<open>Arrays\<close>

text \<open>\<open>xs.slice(-n)\<close> for \<open>n > 0\<close>: the last \<open>n\<close> elements, or all of a shorter array.\<close>

definition slice_last :: "nat \<Rightarrow> 'a list \<Rightarrow> 'a list" where
  "slice_last n xs = drop (length xs - n) xs"

text \<open>\<open>a ?? b\<close>, where \<open>None\<close> stands for \<open>undefined\<close> or \<open>null\<close>.\<close>

definition nullish :: "'a option \<Rightarrow> 'a \<Rightarrow> 'a" where
  "nullish a b = (case a of None \<Rightarrow> b | Some x \<Rightarrow> x)"

text \<open>\<open>xs[i]\<close>: \<open>undefined\<close> out of range.\<close>

definition js_nth :: "'a list \<Rightarrow> nat \<Rightarrow> 'a option" where
  "js_nth xs i = (if i < length xs then Some (xs ! i) else None)"

text \<open>\<open>xs[xs.length - 1]\<close>.\<close>

definition js_last :: "'a list \<Rightarrow> 'a option" where
  "js_last xs = (if xs = [] then None else Some (last xs))"

lemma nullish_simps [simp]:
  "nullish None b = b"
  "nullish (Some x) b = x"
  by (simp_all add: nullish_def)

lemma rev_slice_last: "rev (slice_last n xs) = take n (rev xs)"
  by (simp add: slice_last_def take_rev)

lemma length_slice_last [simp]: "length (slice_last n xs) = min n (length xs)"
  by (simp add: slice_last_def)

lemma set_slice_last_subset: "set (slice_last n xs) \<subseteq> set xs"
  by (simp add: slice_last_def set_drop_subset)

lemma js_last_append [simp]: "js_last (xs @ [x]) = Some x"
  by (simp add: js_last_def)

lemma js_nth_Some_iff: "js_nth xs i = Some x \<longleftrightarrow> i < length xs \<and> xs ! i = x"
  by (simp add: js_nth_def)

lemma filter_find_None: "List.find P xs = None \<longleftrightarrow> filter P xs = []"
  by (induction xs) auto

lemma find_SomeD: "List.find P xs = Some x \<Longrightarrow> x \<in> set xs \<and> P x"
  by (induction xs) (auto split: if_splits)

lemma map_update_id: "(\<And>x. x \<in> set xs \<Longrightarrow> \<not> P x) \<Longrightarrow> map (\<lambda>x. if P x then f x else x) xs = xs"
  by (induction xs) auto

section \<open>Bounded logs\<close>

text \<open>
  Several components keep "the most recent \<open>cap\<close> entries": a push puts the new entry in front
  of the view and drops the oldest ones. A client relies on nothing else: the locale derives
  from this one law that a log never exceeds its capacity, that after any sequence of pushes it
  shows exactly the most recent entries, newest first, and that nothing is dropped before the
  capacity is reached.
\<close>

locale bounded_log =
  fixes push :: "'a \<Rightarrow> 'l \<Rightarrow> 'l"
    and entries :: "'l \<Rightarrow> 'a list"
    and cap :: nat
  assumes entries_push: "entries (push x l) = take cap (x # entries l)"
    and cap_pos: "0 < cap"
begin

lemma length_push: "length (entries (push x l)) = min cap (Suc (length (entries l)))"
  by (simp add: entries_push)

lemma push_le_cap: "length (entries (push x l)) \<le> cap"
  by (simp add: entries_push)

lemma newest_first: "entries (push x l) = x # take (cap - 1) (entries l)"
  using cap_pos by (cases cap) (simp_all add: entries_push)

lemma push_in_entries: "x \<in> set (entries (push x l))"
  by (simp add: newest_first)

lemma entries_fold: 
  assumes "length (entries l) \<le> cap"
  shows "entries (fold push xs l) = take cap (rev xs @ entries l)"
  using assms
proof (induction xs arbitrary: l)
  case Nil
  then show ?case by simp
next
  case (Cons x xs)
  have "entries (fold push xs (push x l)) = take cap (rev xs @ entries (push x l))"
    by (rule Cons.IH) (rule push_le_cap)
  also have "\<dots> = take cap (rev xs @ x # entries l)"
    by (simp add: entries_push min_def)
  finally show ?case by simp
qed

lemma fold_le_cap: "length (entries l) \<le> cap \<Longrightarrow> length (entries (fold push xs l)) \<le> cap"
  by (simp add: entries_fold)

lemma nothing_lost:
  assumes "length xs + length (entries l) \<le> cap"
  shows "entries (fold push xs l) = rev xs @ entries l"
  using assms by (subst entries_fold) auto

end


section \<open>Sets of identifiers\<close>

text \<open>
  A collection of identifiers with insertion and deletion, seen by its clients as a set; the
  well-formedness of the representation (no duplicates) is kept by both operations.
\<close>

locale id_set =
  fixes add :: "'k \<Rightarrow> 'c \<Rightarrow> 'c"
    and remove :: "'k \<Rightarrow> 'c \<Rightarrow> 'c"
    and ids :: "'c \<Rightarrow> 'k set"
    and wf :: "'c \<Rightarrow> bool"
  assumes ids_add: "ids (add i c) = insert i (ids c)"
    and ids_remove: "ids (remove i c) = ids c - {i}"
    and wf_add: "wf c \<Longrightarrow> wf (add i c)"
    and wf_remove: "wf c \<Longrightarrow> wf (remove i c)"
begin

lemmas set_laws = ids_add ids_remove

lemma remove_add: "i \<notin> ids c \<Longrightarrow> ids (remove i (add i c)) = ids c"
  by (simp add: set_laws)

lemma add_remove_commute: "i \<noteq> j \<Longrightarrow> ids (add i (remove j c)) = ids (remove j (add i c))"
  by (auto simp: set_laws)

lemma mem_add_other: "i \<noteq> j \<Longrightarrow> j \<in> ids (add i c) \<longleftrightarrow> j \<in> ids c"
  by (simp add: set_laws)

end

end
