(* ===== verification/JS_Number.thy ===== *)
theory JS_Number
  imports Prelude
begin

text \<open>
  The \<open>number\<close> type of the language: IEEE 754 binary64 values, as exact rationals with the
  two infinities and NaN. Every arithmetic operation computes the exact rational result and
  rounds it to the nearest double (ties to even), with overflow to an infinity. The sign of
  zero is not represented: no source expression of the modelled files divides by a value that
  may be zero or otherwise observes it.
\<close>

section \<open>Rounding to binary64\<close>

text \<open>Round half to even.\<close>

definition rne :: "rat \<Rightarrow> int" where
  "rne x = (let f = \<lfloor>x\<rfloor>; d = x - of_int f in
     if d < 1/2 then f
     else if 1/2 < d then f + 1
     else if even f then f else f + 1)"

text \<open>The number of binary digits of an integer (none unless it is positive).\<close>

function blen :: "int \<Rightarrow> nat" where
  "blen n = (if n \<le> 0 then 0 else Suc (blen (n div 2)))"
  by pat_completeness auto
termination by (relation "measure nat") auto

declare blen.simps [simp del]

text \<open>\<open>ilog2 r\<close> is the exponent \<open>e\<close> with \<open>2\<^sup>e \<le> r < 2\<^sup>e\<^sup>+\<^sup>1\<close>, for \<open>r > 0\<close>.\<close>

definition ilog2 :: "rat \<Rightarrow> int" where
  "ilog2 r =
     (if 1 \<le> r then int (blen \<lfloor>r\<rfloor>) - 1
      else - int (blen (\<lceil>1 / r\<rceil> - 1)))"

text \<open>The exponent of the last place: 53 significant bits, the smallest subnormal is \<open>2\<^sup>-\<^sup>1\<^sup>0\<^sup>7\<^sup>4\<close>.\<close>

definition qexp :: "rat \<Rightarrow> int" where
  "qexp r = max (ilog2 r - 52) (- 1074)"

definition fl_pos :: "rat \<Rightarrow> rat" where
  "fl_pos r = of_int (rne (r / 2 powi qexp r)) * 2 powi qexp r"

definition fl :: "rat \<Rightarrow> rat" where
  "fl r = (if r = 0 then 0 else if 0 < r then fl_pos r else - fl_pos (- r))"

subsection \<open>Laws of the rounding\<close>

lemma floor_le_rne: "\<lfloor>x\<rfloor> \<le> rne x"
  by (simp add: rne_def Let_def)

lemma rne_le_floor_Suc: "rne x \<le> \<lfloor>x\<rfloor> + 1"
  by (simp add: rne_def Let_def)

lemma rne_of_int [simp]: "rne (of_int n) = n"
  by (simp add: rne_def)

lemma rne_mono:
  assumes "x \<le> y"
  shows "rne x \<le> rne y"
proof (cases "\<lfloor>x\<rfloor> = \<lfloor>y\<rfloor>")
  case True
  with assms show ?thesis by (auto simp: rne_def Let_def)
next
  case False
  with assms have "\<lfloor>x\<rfloor> + 1 \<le> \<lfloor>y\<rfloor>" using floor_mono [of x y] by linarith
  with rne_le_floor_Suc [of x] floor_le_rne [of y] show ?thesis by linarith
qed

lemma rne_le_int: "x \<le> of_int n \<Longrightarrow> rne x \<le> n"
  using rne_mono [of x "of_int n"] by simp

lemma rne_ge_int: "of_int n \<le> x \<Longrightarrow> n \<le> rne x"
  using rne_mono [of "of_int n" x] by simp

lemma blen_le_0 [simp]: "n \<le> 0 \<Longrightarrow> blen n = 0"
  by (simp add: blen.simps)

lemma blen_pos: "0 < n \<Longrightarrow> blen n = Suc (blen (n div 2))"
  by (simp add: blen.simps)

lemma less_two_power_blen: "n < 2 ^ blen n"
proof (induction n rule: blen.induct)
  case (1 n)
  show ?case
  proof (cases "n \<le> 0")
    case False
    with "1" have "n div 2 < 2 ^ blen (n div 2)" by simp
    then have "n < 2 * 2 ^ blen (n div 2)" by linarith
    with False show ?thesis by (simp add: blen_pos)
  qed simp
qed

lemma two_power_blen_le: "0 < n \<Longrightarrow> 2 ^ (blen n - 1) \<le> n"
proof (induction n rule: blen.induct)
  case (1 n)
  show ?case
  proof (cases "n div 2 \<le> 0")
    case True
    with "1.prems" have "n = 1" by linarith
    then show ?thesis by (simp add: blen_pos)
  next
    case False
    with "1" have "2 ^ (blen (n div 2) - 1) \<le> n div 2" by simp
    with False have "2 ^ blen (n div 2) \<le> 2 * (n div 2)"
      by (simp add: blen_pos)
    with "1.prems" show ?thesis by (simp add: blen_pos)
  qed
qed

lemma blen_least: "n < 2 ^ k \<Longrightarrow> blen n \<le> k"
proof (induction k arbitrary: n)
  case (Suc k)
  show ?case
  proof (cases "n \<le> 0")
    case False
    from Suc.prems have "n div 2 < 2 ^ k" by auto
    with False Suc.IH show ?thesis by (simp add: blen_pos)
  qed simp
qed simp

text \<open>For \<open>r < 1\<close>, \<open>blen (\<lceil>1/r\<rceil> - 1)\<close> is the least \<open>k\<close> with \<open>1/r \<le> 2\<^sup>k\<close>.\<close>

lemma ilog2_lower:
  assumes "0 < r"
  shows "2 powi ilog2 r \<le> r"
proof (cases "1 \<le> r")
  case True
  then have p: "0 < \<lfloor>r\<rfloor>" by linarith
  then have b: "0 < blen \<lfloor>r\<rfloor>" by (simp add: blen_pos)
  from p have "2 ^ (blen \<lfloor>r\<rfloor> - 1) \<le> \<lfloor>r\<rfloor>" by (rule two_power_blen_le)
  then have "2 ^ (blen \<lfloor>r\<rfloor> - 1) \<le> r" by (simp add: le_floor_iff)
  with True b show ?thesis
    by (simp add: ilog2_def power_int_def nat_diff_distrib)
next
  case False
  define k where "k = blen (\<lceil>1 / r\<rceil> - 1)"
  have "\<lceil>1 / r\<rceil> - 1 < 2 ^ k" unfolding k_def by (rule less_two_power_blen)
  then have "\<lceil>1 / r\<rceil> \<le> 2 ^ k" by simp
  then have "1 / r \<le> 2 ^ k" by (simp add: ceiling_le_iff)
  with assms have "1 / 2 ^ k \<le> r" by (simp add: field_simps)
  with False show ?thesis
    by (simp add: ilog2_def k_def power_int_minus divide_inverse)
qed

lemma ilog2_upper:
  assumes "0 < r"
  shows "r < 2 powi (ilog2 r + 1)"
proof (cases "1 \<le> r")
  case True
  have "\<lfloor>r\<rfloor> < 2 ^ blen \<lfloor>r\<rfloor>" by (rule less_two_power_blen)
  then have "r < 2 ^ blen \<lfloor>r\<rfloor>" by (simp add: floor_less_iff)
  with True show ?thesis by (simp add: ilog2_def)
next
  case False
  define m where "m = \<lceil>1 / r\<rceil> - 1"
  from False assms have "1 < 1 / r" by (simp add: field_simps)
  then have m: "0 < m" unfolding m_def by linarith
  then have "2 ^ (blen m - 1) \<le> m" by (rule two_power_blen_le)
  then have "(2::rat) ^ (blen m - 1) \<le> of_int m"
    by (metis of_int_le_iff of_int_numeral of_int_power)
  also have "of_int m < 1 / r" unfolding m_def by linarith
  finally have "r < 1 / 2 ^ (blen m - 1)" using assms by (simp add: field_simps)
  moreover have "0 < blen m" using m by (simp add: blen_pos)
  ultimately show ?thesis using False
    by (simp add: ilog2_def m_def [symmetric] power_int_def nat_diff_distrib field_simps)
qed

lemma ilog2_mono:
  assumes "0 < r" "r \<le> s"
  shows "ilog2 r \<le> ilog2 s"
proof (rule ccontr)
  assume "\<not> ilog2 r \<le> ilog2 s"
  then have "ilog2 s + 1 \<le> ilog2 r" by simp
  then have "(2::rat) powi (ilog2 s + 1) \<le> 2 powi ilog2 r" by (intro power_int_increasing) auto
  also have "\<dots> \<le> s" using ilog2_lower [OF assms(1)] assms(2) by simp
  finally show False using ilog2_upper [of s] assms by simp
qed

lemma two_powi_pos [simp]: "0 < (2::rat) powi k"
  by simp

text \<open>A power of two above the last place survives rounding, on either side.\<close>

lemma powi_quot_int:
  assumes "q \<le> k"
  shows "(2::rat) powi k / 2 powi q = of_int (2 ^ nat (k - q))"
proof -
  have "(2::rat) powi k / 2 powi q = 2 powi (k - q)" by (simp add: power_int_diff)
  also have "\<dots> = 2 ^ nat (k - q)" using assms by (simp add: power_int_def)
  finally show ?thesis by simp
qed

lemma fl_pos_le_powi:
  assumes "r \<le> 2 powi k" "qexp r \<le> k"
  shows "fl_pos r \<le> 2 powi k"
proof -
  have "r / 2 powi qexp r \<le> 2 powi k / 2 powi qexp r"
    using assms(1) by (simp add: divide_right_mono)
  then have "rne (r / 2 powi qexp r) \<le> 2 ^ nat (k - qexp r)"
    by (intro rne_le_int) (simp only: powi_quot_int [OF assms(2)])
  then have "of_int (rne (r / 2 powi qexp r)) \<le> (2::rat) powi k / 2 powi qexp r"
    by (simp only: powi_quot_int [OF assms(2)] of_int_le_iff)
  then show ?thesis by (simp add: fl_pos_def pos_le_divide_eq)
qed

lemma fl_pos_ge_powi:
  assumes "2 powi k \<le> r" "qexp r \<le> k"
  shows "2 powi k \<le> fl_pos r"
proof -
  have "2 powi k / 2 powi qexp r \<le> r / 2 powi qexp r"
    using assms(1) by (simp add: divide_right_mono)
  then have "2 ^ nat (k - qexp r) \<le> rne (r / 2 powi qexp r)"
    by (intro rne_ge_int) (simp only: powi_quot_int [OF assms(2)])
  then have "(2::rat) powi k / 2 powi qexp r \<le> of_int (rne (r / 2 powi qexp r))"
    by (simp only: powi_quot_int [OF assms(2)] of_int_le_iff)
  then show ?thesis by (simp add: fl_pos_def pos_divide_le_eq)
qed

lemma fl_pos_nonneg: "0 \<le> r \<Longrightarrow> 0 \<le> fl_pos r"
  using rne_mono [of 0 "r / 2 powi qexp r"] rne_of_int [of 0] by (simp add: fl_pos_def)

lemma fl_pos_mono:
  assumes "0 < r" "r \<le> s"
  shows "fl_pos r \<le> fl_pos s"
proof (cases "qexp r = qexp s")
  case True
  then show ?thesis using assms(2)
    by (simp add: fl_pos_def rne_mono divide_right_mono mult_right_mono)
next
  case False
  from ilog2_mono [OF assms] False have lt: "ilog2 r < ilog2 s" and q: "qexp s = ilog2 s - 52"
      "qexp r \<le> ilog2 s"
    by (auto simp: qexp_def)
  have "r \<le> 2 powi (ilog2 r + 1)" using ilog2_upper [OF assms(1)] by simp
  also have "\<dots> \<le> 2 powi ilog2 s" using lt by (intro power_int_increasing) auto
  finally have "fl_pos r \<le> 2 powi ilog2 s" using q by (intro fl_pos_le_powi)
  also have "\<dots> \<le> fl_pos s"
    using ilog2_lower [of s] assms q by (intro fl_pos_ge_powi) auto
  finally show ?thesis .
qed

lemma fl_0 [simp]: "fl 0 = 0"
  by (simp add: fl_def)

lemma fl_minus: "fl (- r) = - fl r"
  by (simp add: fl_def)

lemma fl_nonneg: "0 \<le> r \<Longrightarrow> 0 \<le> fl r"
  by (simp add: fl_def fl_pos_nonneg)

lemma fl_nonpos: "r \<le> 0 \<Longrightarrow> fl r \<le> 0"
  using fl_nonneg [of "- r"] by (simp add: fl_minus)

lemma fl_mono:
  assumes "r \<le> s"
  shows "fl r \<le> fl s"
proof (cases "r \<le> 0 \<and> 0 \<le> s")
  case True
  then show ?thesis using fl_nonneg [of s] fl_nonpos [of r] by simp
next
  case False
  then consider "0 < r" | "s < 0" by linarith
  then show ?thesis
  proof cases
    case 1
    with assms show ?thesis by (simp add: fl_def fl_pos_mono)
  next
    case 2
    with assms show ?thesis using fl_pos_mono [of "- s" "- r"] by (simp add: fl_def)
  qed
qed

lemma fl_of_int:
  assumes "\<bar>n\<bar> \<le> 2 ^ 53"
  shows "fl (of_int n) = of_int n"
proof -
  have *: "fl_pos (of_int m) = of_int m" if m: "0 < m" "m \<le> 2 ^ 53" for m
  proof (cases "m = 2 ^ 53")
    case True
    have "fl_pos (of_int (2 ^ 53)) = of_int (2 ^ 53)" by code_simp
    with True show ?thesis by simp
  next
    case False
    from m have "ilog2 (of_int m) = int (blen m) - 1" by (simp add: ilog2_def)
    moreover have "m < 2 ^ 53" using m False by linarith
    then have "blen m \<le> 53" by (rule blen_least)
    ultimately have q: "qexp (of_int m) \<le> 0" "- 1074 \<le> qexp (of_int m)" by (simp_all add: qexp_def)
    then have "(of_int m :: rat) / 2 powi qexp (of_int m) = of_int (m * 2 ^ nat (- qexp (of_int m)))"
      by (simp add: power_int_def field_simps)
    then show ?thesis unfolding fl_pos_def by (simp only: rne_of_int) (simp add: field_simps)
  qed
  show ?thesis using * [of n] * [of "- n"] assms by (auto simp: fl_def)
qed

lemma fl_pow2: "fl (2 ^ k) = 2 ^ k"
proof -
  let ?r = "(2::rat) ^ k"
  have "(2::rat) powi ilog2 ?r \<le> 2 powi int k" using ilog2_lower [of ?r] by simp
  then have "ilog2 ?r \<le> int k"
    by (metis linorder_not_le one_less_numeral_iff power_int_strict_increasing semiring_norm(76))
  then have q: "qexp ?r \<le> int k" by (simp add: qexp_def)
  have "fl_pos ?r = 2 powi int k"
    by (rule antisym) (intro fl_pos_le_powi fl_pos_ge_powi q, simp)+
  then show ?thesis by (simp add: fl_def)
qed

subsection \<open>What the arithmetic of the console relies on\<close>

text \<open>
  The derived metrics need of the rounding only that it is monotone and exact on small
  integers. Everything below the interface is proved from these two laws.
\<close>

locale rounding =
  fixes rnd :: "rat \<Rightarrow> rat"
  assumes rnd_mono: "x \<le> y \<Longrightarrow> rnd x \<le> rnd y"
    and rnd_int: "\<bar>n\<bar> \<le> 2 ^ 53 \<Longrightarrow> rnd (of_int n) = of_int n"
begin

lemma rnd_0: "rnd 0 = 0"
  using rnd_int [of 0] by simp

lemma rnd_nonneg: "0 \<le> x \<Longrightarrow> 0 \<le> rnd x"
  using rnd_mono [of 0 x] by (simp add: rnd_0)

lemma rnd_nonpos: "x \<le> 0 \<Longrightarrow> rnd x \<le> 0"
  using rnd_mono [of x 0] by (simp add: rnd_0)

lemma scale_mono: "0 \<le> x \<Longrightarrow> a \<le> b \<Longrightarrow> rnd (x * a) \<le> rnd (x * b)"
  by (intro rnd_mono mult_left_mono)

end

interpretation dbl: rounding fl
  by unfold_locales (auto intro: fl_mono fl_of_int)

section \<open>Numbers\<close>

datatype number = Fin rat | PInf | NInf | NaN

text \<open>The double nearest to an exact result; results beyond the range overflow.\<close>

definition num_of :: "rat \<Rightarrow> number" where
  "num_of r = (let v = fl r in
     if 2 ^ 1024 \<le> v then PInf else if v \<le> - (2 ^ 1024) then NInf else Fin v)"

text \<open>A numeric literal of the source, and an array length used as a number.\<close>

definition lit :: "rat \<Rightarrow> number" where
  "lit r = Fin (fl r)"

definition num_nat :: "nat \<Rightarrow> number" where
  "num_nat n = num_of (of_nat n)"

text \<open>An infinity with the sign of \<open>s\<close>.\<close>

definition num_inf :: "rat \<Rightarrow> number" where
  "num_inf s = (if 0 < s then PInf else if s < 0 then NInf else NaN)"

instantiation number :: "{zero, plus, minus, times, divide, ord}"
begin

definition zero_number :: number where
  "zero_number = Fin 0"

fun plus_number :: "number \<Rightarrow> number \<Rightarrow> number" where
  "plus_number (Fin a) (Fin b) = num_of (a + b)"
| "plus_number NaN _ = NaN"
| "plus_number _ NaN = NaN"
| "plus_number PInf NInf = NaN"
| "plus_number NInf PInf = NaN"
| "plus_number PInf _ = PInf"
| "plus_number _ PInf = PInf"
| "plus_number NInf _ = NInf"
| "plus_number _ NInf = NInf"

fun minus_number :: "number \<Rightarrow> number \<Rightarrow> number" where
  "minus_number (Fin a) (Fin b) = num_of (a - b)"
| "minus_number NaN _ = NaN"
| "minus_number _ NaN = NaN"
| "minus_number PInf PInf = NaN"
| "minus_number NInf NInf = NaN"
| "minus_number PInf _ = PInf"
| "minus_number _ PInf = NInf"
| "minus_number NInf _ = NInf"
| "minus_number _ NInf = PInf"

fun times_number :: "number \<Rightarrow> number \<Rightarrow> number" where
  "times_number (Fin a) (Fin b) = num_of (a * b)"
| "times_number NaN _ = NaN"
| "times_number _ NaN = NaN"
| "times_number (Fin a) PInf = num_inf a"
| "times_number (Fin a) NInf = num_inf (- a)"
| "times_number PInf (Fin b) = num_inf b"
| "times_number NInf (Fin b) = num_inf (- b)"
| "times_number PInf PInf = PInf"
| "times_number NInf NInf = PInf"
| "times_number _ _ = NInf"

text \<open>Division: a zero divisor is the positive zero.\<close>

fun divide_number :: "number \<Rightarrow> number \<Rightarrow> number" where
  "divide_number (Fin a) (Fin b) = (if b = 0 then num_inf a else num_of (a / b))"
| "divide_number NaN _ = NaN"
| "divide_number _ NaN = NaN"
| "divide_number (Fin a) _ = Fin 0"
| "divide_number PInf (Fin b) = (if b < 0 then NInf else PInf)"
| "divide_number NInf (Fin b) = (if b < 0 then PInf else NInf)"
| "divide_number _ _ = NaN"

text \<open>The comparisons of the language: every comparison with NaN is false.\<close>

fun less_number :: "number \<Rightarrow> number \<Rightarrow> bool" where
  "less_number (Fin a) (Fin b) = (a < b)"
| "less_number NaN _ = False"
| "less_number _ NaN = False"
| "less_number (Fin a) PInf = True"
| "less_number NInf PInf = True"
| "less_number NInf (Fin b) = True"
| "less_number _ _ = False"

fun less_eq_number :: "number \<Rightarrow> number \<Rightarrow> bool" where
  "less_eq_number NaN _ = False"
| "less_eq_number _ NaN = False"
| "less_eq_number (Fin a) (Fin b) = (a \<le> b)"
| "less_eq_number NInf _ = True"
| "less_eq_number _ PInf = True"
| "less_eq_number _ _ = False"

instance ..

end

instantiation number :: inverse
begin

definition inverse_number :: "number \<Rightarrow> number" where
  "inverse_number a = Fin 1 div a"

instance ..

end

fun Math_max :: "number \<Rightarrow> number \<Rightarrow> number" where
  "Math_max NaN _ = NaN"
| "Math_max _ NaN = NaN"
| "Math_max a b = (if a \<le> b then b else a)"

fun Math_round :: "number \<Rightarrow> number" where
  "Math_round (Fin r) = Fin (of_int \<lfloor>r + 1/2\<rfloor>)"
| "Math_round x = x"

fun is_finite :: "number \<Rightarrow> bool" where
  "is_finite (Fin r) = True"
| "is_finite _ = False"

subsection \<open>Laws of the operations\<close>

text \<open>For evaluation: results of ordinary size are compared with a literal only.\<close>

lemma num_of_code [code]:
  "num_of r = (let v = fl r in
     if - 18446744073709551616 < v \<and> v < 18446744073709551616 then Fin v
     else if 2 ^ 1024 \<le> v then PInf else if v \<le> - (2 ^ 1024) then NInf else Fin v)"
proof -
  have "(18446744073709551616 :: rat) \<le> 2 ^ 1024"
    using power_increasing [of 64 1024 "2 :: rat"] by simp
  then show ?thesis unfolding num_of_def Let_def by (simp split: if_splits)
qed

lemma num_of_cases:
  "num_of r = Fin (fl r) \<or> num_of r = PInf \<and> 0 < r \<or> num_of r = NInf \<and> r < 0"
proof -
  have "0 < r" if "2 ^ 1024 \<le> fl r"
    using that dbl.rnd_nonpos [of r] by (rule_tac ccontr) (simp add: not_less)
  moreover have "r < 0" if "fl r \<le> - (2 ^ 1024)"
    using that dbl.rnd_nonneg [of r] by (rule_tac ccontr) (simp add: not_less)
  ultimately show ?thesis by (simp add: num_of_def Let_def)
qed

lemma num_of_not_NaN [simp]: "num_of r \<noteq> NaN"
  by (simp add: num_of_def Let_def)

lemma num_of_0 [simp]: "num_of 0 = Fin 0"
  by (simp add: num_of_def)

lemma num_of_mono: "r \<le> s \<Longrightarrow> num_of r \<le> num_of s"
  using fl_mono [of r s] by (simp add: num_of_def Let_def)

lemma num_of_nonneg: "0 \<le> r \<Longrightarrow> Fin 0 \<le> num_of r"
  using num_of_mono [of 0 r] by simp

lemma num_of_nonpos: "r \<le> 0 \<Longrightarrow> num_of r \<le> Fin 0"
  using num_of_mono [of r 0] by simp

lemma num_le_refl: "a \<noteq> NaN \<Longrightarrow> (a :: number) \<le> a"
  by (cases a) simp_all

lemma num_le_trans: "a \<le> b \<Longrightarrow> b \<le> c \<Longrightarrow> (a :: number) \<le> c"
  by (cases a; cases b; cases c) simp_all

lemma num_le_total: "a \<noteq> NaN \<Longrightarrow> b \<noteq> NaN \<Longrightarrow> (a :: number) \<le> b \<or> b \<le> a"
  by (cases a; cases b) auto

lemma num_le_not_NaN: "(a :: number) \<le> b \<Longrightarrow> a \<noteq> NaN \<and> b \<noteq> NaN"
  by (cases a; cases b) auto

lemma Math_max_eq: "Math_max a b = (if a = NaN \<or> b = NaN then NaN else if a \<le> b then b else a)"
  by (cases a; cases b) simp_all

lemma Math_max_ge: "a \<noteq> NaN \<Longrightarrow> b \<noteq> NaN \<Longrightarrow> a \<le> Math_max a b \<and> b \<le> Math_max a b"
  using num_le_total [of a b] by (auto simp: Math_max_eq num_le_refl)

lemma Math_max_mono: "a \<le> a' \<Longrightarrow> b \<le> b' \<Longrightarrow> Math_max a b \<le> Math_max a' b'"
  using num_le_not_NaN [of a a'] num_le_not_NaN [of b b'] num_le_total [of a' b']
  by (auto simp: Math_max_eq intro: num_le_trans)

text \<open>Small integers are exact.\<close>

lemma num_of_int:
  assumes "\<bar>n\<bar> \<le> 2 ^ 53"
  shows "num_of (of_int n) = Fin (of_int n)"
proof -
  have "(2::rat) ^ 53 < 2 ^ 1024" by (rule power_strict_increasing) simp_all
  moreover have "of_int \<bar>n\<bar> \<le> (of_int (2 ^ 53) :: rat)" using assms by (simp only: of_int_le_iff)
  ultimately have "\<bar>of_int n :: rat\<bar> < 2 ^ 1024" by (simp only: of_int_power of_int_numeral of_int_abs)
  then show ?thesis using fl_of_int [OF assms] by (simp add: num_of_def Let_def abs_less_iff)
qed

lemma num_of_1 [simp]: "num_of 1 = Fin 1"
  using num_of_int [of 1] by simp

lemma num_of_numeral [simp]:
  "(numeral k :: int) \<le> 9007199254740992 \<Longrightarrow> num_of (numeral k) = Fin (numeral k)"
  using num_of_int [of "numeral k"] by simp

lemma num_nat_small: "k < 2 ^ 32 \<Longrightarrow> num_nat k = Fin (of_nat k)"
proof -
  assume "k < 2 ^ 32"
  then have "int k < 2 ^ 32" by (metis of_nat_less_iff of_nat_numeral of_nat_power)
  then show ?thesis using num_of_int [of "int k"] by (simp add: num_nat_def)
qed

lemma lit_1 [simp]: "lit 1 = Fin 1"
  by (simp add: lit_def fl_of_int [of 1, simplified])

text \<open>Clamping a rate at zero before the division or after the rounding is the same.\<close>

lemma clamp_rate:
  assumes "0 < q"
  shows "Math_max 0 (Math_round (d / Fin q)) = Math_round (Math_max 0 d / Fin q)"
proof (cases d)
  case (Fin r)
  have half: "\<lfloor>(1::rat) / 2\<rfloor> = 0" by (simp add: floor_eq_iff)
  show ?thesis
  proof (cases "0 \<le> r")
    case True
    with assms have "Fin 0 \<le> num_of (r / q)" by (intro num_of_nonneg) simp
    with Fin True assms show ?thesis
      by (cases "num_of (r / q)") (simp_all add: zero_number_def)
  next
    case False
    with assms have "num_of (r / q) \<le> Fin 0" by (intro num_of_nonpos) (simp add: divide_nonpos_pos)
    then have "Math_max 0 (Math_round (num_of (r / q))) = Fin 0"
      by (cases "num_of (r / q)") (auto simp: zero_number_def, linarith)
    with Fin False assms half show ?thesis by (simp add: zero_number_def)
  qed
qed (use assms in \<open>simp_all add: zero_number_def floor_eq_iff\<close>)

subsection \<open>Decimal notation\<close>

definition digit_char :: "int \<Rightarrow> char" where
  "digit_char d = ''0123456789'' ! nat (d mod 10)"

function digits :: "int \<Rightarrow> string" where
  "digits n = (if n < 10 then [digit_char n] else digits (n div 10) @ [digit_char n])"
  by pat_completeness auto
termination by (relation "measure nat") auto

declare digits.simps [simp del]

definition show_int :: "int \<Rightarrow> string" where
  "show_int n = (if n < 0 then ''-'' @ digits (- n) else digits n)"

definition show_nat :: "nat \<Rightarrow> string" where
  "show_nat n = digits (int n)"

text \<open>\<open>dec_exp x\<close> is the \<open>n\<close> with \<open>10\<^sup>n\<^sup>-\<^sup>1 \<le> x < 10\<^sup>n\<close>: 324 shifts reach the least subnormal.\<close>

fun lead_zeros :: "nat \<Rightarrow> rat \<Rightarrow> int" where
  "lead_zeros 0 x = 0"
| "lead_zeros (Suc k) x = (if 1 \<le> 10 * x then 0 else 1 + lead_zeros k (10 * x))"

definition dec_exp :: "rat \<Rightarrow> int" where
  "dec_exp x = (if 1 \<le> x then int (length (digits \<lfloor>x\<rfloor>)) else - lead_zeros 324 x)"

text \<open>
  The shortest decimal significand that reads back as the same double, and its exponent: 17
  digits are always enough, so the search starts at one digit with 16 more tries.
\<close>

fun shortest :: "nat \<Rightarrow> nat \<Rightarrow> rat \<Rightarrow> int \<Rightarrow> string \<times> int" where
  "shortest 0 k x n = (digits \<lfloor>x * 10 powi (int k - n) + 1/2\<rfloor>, n)"
| "shortest (Suc f) k x n =
     (let s = \<lfloor>x * 10 powi (int k - n) + 1/2\<rfloor> in
      if fl (of_int s * 10 powi (n - int k)) = x
      then (if s = 10 ^ k then (''1'', n + 1) else (digits s, n))
      else shortest f (Suc k) x n)"

definition decimal :: "string \<Rightarrow> int \<Rightarrow> string" where
  "decimal ds n = (let k = int (length ds) in
     if k \<le> n \<and> n \<le> 21 then ds @ replicate (nat (n - k)) (CHR ''0'')
     else if 0 < n \<and> n \<le> 21 then take (nat n) ds @ ''.'' @ drop (nat n) ds
     else if - 6 < n \<and> n \<le> 0 then ''0.'' @ replicate (nat (- n)) (CHR ''0'') @ ds
     else take 1 ds @ (if k = 1 then [] else ''.'' @ drop 1 ds) @ ''e'' @
       (if 0 < n then ''+'' else ''-'') @ digits \<bar>n - 1\<bar>)"

fun num_to_string :: "number \<Rightarrow> string" where
  "num_to_string NaN = ''NaN''"
| "num_to_string PInf = ''Infinity''"
| "num_to_string NInf = ''-Infinity''"
| "num_to_string (Fin r) =
     (if r = 0 then ''0''
      else (if r < 0 then ''-'' else []) @
        (case shortest 16 1 \<bar>r\<bar> (dec_exp \<bar>r\<bar>) of (ds, n) \<Rightarrow> decimal ds n))"

text \<open>\<open>x.toFixed(f)\<close>.\<close>

definition fixed_digits :: "nat \<Rightarrow> rat \<Rightarrow> string" where
  "fixed_digits f x = (let ds = digits \<lfloor>x * 10 ^ f + 1/2\<rfloor> in
     if f = 0 then ds
     else let p = replicate (Suc f - length ds) (CHR ''0'') @ ds
          in take (length p - f) p @ ''.'' @ drop (length p - f) p)"

fun toFixed :: "nat \<Rightarrow> number \<Rightarrow> string" where
  "toFixed f (Fin r) =
     (if 10 ^ 21 \<le> \<bar>r\<bar> then num_to_string (Fin r)
      else (if r < 0 then ''-'' else []) @ fixed_digits f \<bar>r\<bar>)"
| "toFixed f x = num_to_string x"

end
