(* ===== verification/JS_String.thy ===== *)
theory JS_String
  imports JS_Number
begin

text \<open>
  The string functions of the language the sources use, on strings of Latin-1 characters (a
  \<open>char\<close> is a code unit below 256; the sources' own literals and the identifiers, keys and
  URLs they handle are in this range), the JSON values \<open>Response.json()\<close> and
  \<open>JSON.parse\<close> return, and the outcomes of \<open>fetch\<close>.
\<close>

section \<open>Strings\<close>

abbreviation code :: "char \<Rightarrow> int" where
  "code c \<equiv> of_char c"

text \<open>White space and line terminators: TAB, LF, VT, FF, CR, space and no-break space.\<close>

definition is_space :: "char \<Rightarrow> bool" where
  "is_space c = (code c \<in> {9, 10, 11, 12, 13, 32, 160})"

definition trim :: "string \<Rightarrow> string" where
  "trim s = rev (dropWhile is_space (rev (dropWhile is_space s)))"

definition lower_char :: "char \<Rightarrow> char" where
  "lower_char c = (let n = code c in
     if 65 \<le> n \<and> n \<le> 90 \<or> 192 \<le> n \<and> n \<le> 222 \<and> n \<noteq> 215 then char_of (n + 32) else c)"

definition toLowerCase :: "string \<Rightarrow> string" where
  "toLowerCase s = map lower_char s"

definition startsWith :: "string \<Rightarrow> string \<Rightarrow> bool" where
  "startsWith s p = (take (length p) s = p)"

fun str_includes :: "string \<Rightarrow> string \<Rightarrow> bool" where
  "str_includes [] q = (q = [])"
| "str_includes (c # s) q = (startsWith (c # s) q \<or> str_includes s q)"

lemma startsWith_append [simp]: "startsWith (p @ s) p"
  by (simp add: startsWith_def)

lemma startsWith_iff: "startsWith s p \<longleftrightarrow> (\<exists>t. s = p @ t)"
  by (metis append_take_drop_id append_eq_conv_conj startsWith_def)

lemma includes_iff: "str_includes s q \<longleftrightarrow> (\<exists>a b. s = a @ q @ b)"
proof (induction s)
  case Nil
  then show ?case by simp
next
  case (Cons c s)
  have "(\<exists>a b. c # s = a @ q @ b) \<longleftrightarrow> (\<exists>b. c # s = q @ b) \<or> (\<exists>a b. s = a @ q @ b)"
    by (auto simp: Cons_eq_append_conv append_eq_Cons_conv)
  with Cons show ?case by (simp add: startsWith_iff)
qed

lemma trim_Nil [simp]: "trim [] = []"
  by (simp add: trim_def)

lemma trim_eq_Nil_iff: "trim s = [] \<longleftrightarrow> list_all is_space s"
proof
  assume "trim s = []"
  then have "\<forall>c \<in> set (dropWhile is_space s). is_space c" by (simp add: trim_def)
  then have "dropWhile is_space s = []"
    by (metis dropWhile_eq_Nil_conv hd_dropWhile hd_in_set)
  then show "list_all is_space s" by (simp add: list_all_iff)
qed (auto simp: trim_def list_all_iff dest: set_dropWhileD)

section \<open>Percent encoding\<close>

text \<open>The characters \<open>encodeURIComponent\<close> leaves alone: alphanumerics and \<open>- _ . ! ~ * ' ( )\<close>.\<close>

definition uri_unreserved :: "char \<Rightarrow> bool" where
  "uri_unreserved c = (let n = code c in
     65 \<le> n \<and> n \<le> 90 \<or> 97 \<le> n \<and> n \<le> 122 \<or> 48 \<le> n \<and> n \<le> 57 \<or>
     n \<in> {33, 39, 40, 41, 42, 45, 46, 95, 126})"

definition hex_digit :: "int \<Rightarrow> char" where
  "hex_digit d = ''0123456789ABCDEF'' ! nat (d mod 16)"

definition pct :: "int \<Rightarrow> string" where
  "pct b = [CHR ''%'', hex_digit (b div 16), hex_digit b]"

definition encode_char :: "char \<Rightarrow> string" where
  "encode_char c =
     (if uri_unreserved c then [c]
      else if code c < 128 then pct (code c)
      else pct (192 + code c div 64) @ pct (128 + code c mod 64))"

definition encodeURIComponent :: "string \<Rightarrow> string" where
  "encodeURIComponent s = concat (map encode_char s)"

text \<open>The receiving side: percent decoding of UTF-8 octets (one- and two-octet sequences).\<close>

definition hex_val :: "char \<Rightarrow> int option" where
  "hex_val c = (let n = code c in
     if 48 \<le> n \<and> n \<le> 57 then Some (n - 48)
     else if 65 \<le> n \<and> n \<le> 70 then Some (n - 55)
     else if 97 \<le> n \<and> n \<le> 102 then Some (n - 87) else None)"

fun octets :: "string \<Rightarrow> int list option" where
  "octets [] = Some []"
| "octets (c # s) =
     (if c = CHR ''%'' then
        (case s of h # l # t \<Rightarrow>
           (case (hex_val h, hex_val l) of
              (Some a, Some b) \<Rightarrow> map_option ((#) (16 * a + b)) (octets t)
            | _ \<Rightarrow> None)
         | _ \<Rightarrow> None)
      else map_option ((#) (code c)) (octets s))"

fun utf8 :: "int list \<Rightarrow> string option" where
  "utf8 [] = Some []"
| "utf8 (b # bs) =
     (if b < 128 then map_option ((#) (char_of b)) (utf8 bs)
      else case bs of
        d # ds \<Rightarrow> if (b = 194 \<or> b = 195) \<and> 128 \<le> d \<and> d < 192
                  then map_option ((#) (char_of (64 * (b - 192) + (d - 128)))) (utf8 ds) else None
      | [] \<Rightarrow> None)"

definition uri_decode :: "string \<Rightarrow> string option" where
  "uri_decode s = Option.bind (octets s) utf8"


lemma hex_val_digit: "hex_val (hex_digit d) = Some (d mod 16)"
proof -
  have "\<forall>d \<in> {0..15}. hex_val (hex_digit d) = Some d" by code_simp
  moreover have "hex_digit d = hex_digit (d mod 16)" by (simp add: hex_digit_def)
  moreover have "d mod 16 \<in> {0..15}"
    using pos_mod_bound [of 16 d] pos_mod_sign [of 16 d] by simp
  ultimately show ?thesis by metis
qed

lemma code_range: "0 \<le> code c" "code c < 256"
  by (simp_all add: of_char_def horner_sum_simps split: char.split bool.split) 

lemma octets_pct: "0 \<le> b \<Longrightarrow> b < 256 \<Longrightarrow> octets (pct b @ s) = map_option ((#) b) (octets s)"
  by (simp add: pct_def hex_val_digit option.map_comp comp_def mult.commute)

lemma octets_encode_char:
  "octets (encode_char c @ s) =
     map_option ((@) (if code c < 128 then [code c]
                      else [192 + code c div 64, 128 + code c mod 64])) (octets s)"
proof -
  have "uri_unreserved c \<Longrightarrow> c \<noteq> CHR ''%'' \<and> code c < 128"
    by (auto simp: uri_unreserved_def Let_def)
  then show ?thesis using code_range [of c]
    by (cases "octets s") (auto simp: encode_char_def octets_pct)
qed


lemma uri_decode_encode: "uri_decode (encodeURIComponent s) = Some s"
proof (induction s)
  case Nil
  then show ?case by (simp add: uri_decode_def encodeURIComponent_def)
next
  case (Cons c s)
  then obtain bs where bs: "octets (encodeURIComponent s) = Some bs" "utf8 bs = Some s"
    by (auto simp: uri_decode_def bind_eq_Some_conv)
  have "code c div 64 = 2 \<or> code c div 64 = 3" if "\<not> code c < 128"
    using that code_range [of c] by linarith
  then show ?case using bs code_range [of c]
    by (auto simp: uri_decode_def encodeURIComponent_def octets_encode_char)
qed

corollary encodeURIComponent_inject [simp]:
  "encodeURIComponent s = encodeURIComponent t \<longleftrightarrow> s = t"
  by (metis option.inject uri_decode_encode)

text \<open>No character of the result delimits a component of a URL.\<close>

definition url_delims :: "char set" where
  "url_delims = {CHR ''/'', CHR ''?'', CHR ''#'', CHR ''&'', CHR ''=''}"

lemma encode_char_no_delim: "set (encode_char c) \<inter> url_delims = {}"
proof -
  have "hex_digit d \<in> set ''0123456789ABCDEF''" for d
  proof -
    have "nat (d mod 16) < 16" using pos_mod_bound [of 16 d] by simp
    then show ?thesis unfolding hex_digit_def by (intro nth_mem) simp
  qed
  moreover have "set ''0123456789ABCDEF'' \<inter> url_delims = {}" by (simp add: url_delims_def)
  ultimately have "hex_digit d \<notin> url_delims" for d by blast
  then have "set (pct b) \<inter> url_delims = {}" for b
    by (simp add: pct_def) (simp add: url_delims_def)
  moreover have "uri_unreserved c \<Longrightarrow> c \<notin> url_delims"
    by (auto simp: uri_unreserved_def url_delims_def)
  ultimately show ?thesis by (auto simp: encode_char_def)
qed

lemma encodeURIComponent_no_delim: "set (encodeURIComponent s) \<inter> url_delims = {}"
  using encode_char_no_delim by (fastforce simp: encodeURIComponent_def)

end
