(* ===== verification/JSON.thy ===== *)
theory JSON
  imports JS_String
begin

text \<open>
  JSON values, the conversions of the language applied to them (\<open>Boolean\<close>, \<open>String\<close>,
  \<open>JSON.stringify\<close>, property access), and the outcomes of a \<open>fetch\<close>.
\<close>

section \<open>Values\<close>

datatype json =
    JNull
  | JBool bool
  | JNum number
  | JStr string
  | JArr "json list"
  | JObj "(string \<times> json) list"

text \<open>
  A thrown value: an \<open>Error\<close> with its message, or anything else. The texts of the engine's
  own type errors are not fixed by the language: functions that may raise one take the
  message of reading property \<open>k\<close> of \<open>null\<close> as a parameter \<open>tmsg k\<close>.
\<close>

datatype thrown = Err string | NonErr

text \<open>\<open>v.k\<close>: \<open>Inl\<close> for a type error, \<open>Inr None\<close> for \<open>undefined\<close>.\<close>

fun get_prop :: "(string \<Rightarrow> string) \<Rightarrow> json \<Rightarrow> string \<Rightarrow> thrown + json option" where
  "get_prop tmsg JNull k = Inl (Err (tmsg k))"
| "get_prop tmsg (JObj kvs) k = Inr (map_of kvs k)"
| "get_prop tmsg _ k = Inr None"

text \<open>The left operand of \<open>??\<close>: \<open>null\<close> counts as absent.\<close>

fun present :: "json option \<Rightarrow> json option" where
  "present (Some JNull) = None"
| "present v = v"

text \<open>\<open>Boolean(v)\<close>, \<open>None\<close> being \<open>undefined\<close>.\<close>

fun truthy :: "json option \<Rightarrow> bool" where
  "truthy None = False"
| "truthy (Some JNull) = False"
| "truthy (Some (JBool b)) = b"
| "truthy (Some (JNum x)) = (x \<noteq> NaN \<and> x \<noteq> Fin 0)"
| "truthy (Some (JStr s)) = (s \<noteq> [])"
| "truthy (Some (JArr vs)) = True"
| "truthy (Some (JObj kvs)) = True"

definition join :: "string \<Rightarrow> string list \<Rightarrow> string" where
  "join sep xs = (case xs of [] \<Rightarrow> [] | x # xs' \<Rightarrow> x @ concat (map (\<lambda>y. sep @ y) xs'))"

text \<open>\<open>String(v)\<close>.\<close>

fun js_String :: "json \<Rightarrow> string" where
  "js_String JNull = ''null''"
| "js_String (JBool b) = (if b then ''true'' else ''false'')"
| "js_String (JNum x) = num_to_string x"
| "js_String (JStr s) = s"
| "js_String (JArr vs) = join '','' (map (\<lambda>v. if v = JNull then [] else js_String v) vs)"
| "js_String (JObj kvs) = ''[object Object]''"

subsection \<open>Conversion to a number\<close>

text \<open>
  \<open>Number(s)\<close> on a string: surrounding white space is ignored, the empty string is zero, and
  the rest must be one literal: decimal with optional sign, fraction and exponent, signed
  \<open>Infinity\<close>, or hexadecimal, octal or binary without a sign.
\<close>

definition is_digit :: "char \<Rightarrow> bool" where
  "is_digit c = (48 \<le> code c \<and> code c \<le> 57)"

definition radix_val :: "int \<Rightarrow> string \<Rightarrow> int option" where
  "radix_val b s =
     (if s \<noteq> [] \<and> list_all (\<lambda>c. case hex_val c of Some d \<Rightarrow> d < b | None \<Rightarrow> False) s
      then Some (foldl (\<lambda>a c. b * a + the (hex_val c)) 0 s) else None)"

definition exponent_val :: "string \<Rightarrow> int option" where
  "exponent_val s =
     (case s of [] \<Rightarrow> Some 0
      | c # t \<Rightarrow>
        if c = CHR ''e'' \<or> c = CHR ''E'' then
          (case t of [] \<Rightarrow> None
           | d # u \<Rightarrow> if d = CHR ''-'' then map_option uminus (radix_val 10 u)
                    else if d = CHR ''+'' then radix_val 10 u else radix_val 10 t)
        else None)"

definition decimal_val :: "string \<Rightarrow> number" where
  "decimal_val s =
     (let i = takeWhile is_digit s; r = dropWhile is_digit s;
          dot = startsWith r ''.'';
          f = (if dot then takeWhile is_digit (tl r) else []);
          r' = (if dot then dropWhile is_digit (tl r) else r) in
      if s = ''Infinity'' then PInf
      else case (radix_val 10 (i @ f), exponent_val r') of
        (Some m, Some e) \<Rightarrow> num_of (of_int m * 10 powi (e - int (length f)))
      | _ \<Rightarrow> NaN)"

definition StringToNumber :: "string \<Rightarrow> number" where
  "StringToNumber s =
     (let t = trim s; prefix = map lower_char (take 2 t); radix = (\<lambda>b. case radix_val b (drop 2 t) of
            Some m \<Rightarrow> num_of (of_int m) | None \<Rightarrow> NaN) in
      if t = [] then Fin 0
      else if prefix = ''0x'' then radix 16
      else if prefix = ''0o'' then radix 8
      else if prefix = ''0b'' then radix 2
      else if hd t = CHR ''-'' then 0 - decimal_val (tl t)
      else if hd t = CHR ''+'' then decimal_val (tl t)
      else decimal_val t)"

text \<open>\<open>Number(v)\<close>.\<close>

fun js_Number :: "json \<Rightarrow> number" where
  "js_Number JNull = Fin 0"
| "js_Number (JBool b) = (if b then Fin 1 else Fin 0)"
| "js_Number (JNum x) = x"
| "js_Number (JStr s) = StringToNumber s"
| "js_Number (JArr vs) = StringToNumber (js_String (JArr vs))"
| "js_Number (JObj kvs) = NaN"

subsection \<open>Serialisation\<close>

definition lower_hex :: "int \<Rightarrow> char" where
  "lower_hex d = ''0123456789abcdef'' ! nat (d mod 16)"

definition quote_char :: "char \<Rightarrow> string" where
  "quote_char c = (let n = code c in
     if n = 34 then [CHR 0x5C, CHR 0x22]
     else if n = 92 then [CHR 0x5C, CHR 0x5C]
     else if n = 8 then [CHR 0x5C, CHR ''b'']
     else if n = 12 then [CHR 0x5C, CHR ''f'']
     else if n = 10 then [CHR 0x5C, CHR ''n'']
     else if n = 13 then [CHR 0x5C, CHR ''r'']
     else if n = 9 then [CHR 0x5C, CHR ''t'']
     else if n < 32 then [CHR 0x5C, CHR ''u'', CHR ''0'', CHR ''0'', lower_hex (n div 16), lower_hex n]
     else [c])"

definition quote :: "string \<Rightarrow> string" where
  "quote s = [CHR 0x22] @ concat (map quote_char s) @ [CHR 0x22]"

fun num_json :: "number \<Rightarrow> string" where
  "num_json (Fin r) = num_to_string (Fin r)"
| "num_json _ = ''null''"

text \<open>\<open>JSON.stringify(v)\<close>.\<close>

fun stringify :: "json \<Rightarrow> string" where
  "stringify JNull = ''null''"
| "stringify (JBool b) = (if b then ''true'' else ''false'')"
| "stringify (JNum x) = num_json x"
| "stringify (JStr s) = quote s"
| "stringify (JArr vs) = ''['' @ join '','' (map stringify vs) @ '']''"
| "stringify (JObj kvs) =
     ''{'' @ join '','' (map (\<lambda>(k, v). quote k @ '':'' @ stringify v) kvs) @ ''}''"

text \<open>\<open>JSON.stringify(v, null, 2)\<close>; the first argument is the current indentation.\<close>

fun pretty :: "nat \<Rightarrow> json \<Rightarrow> string" where
  "pretty i (JArr vs) =
     (if vs = [] then ''[]''
      else let nl = CHR 0x0A # replicate (i + 2) (CHR '' '') in
        ''['' @ nl @ join ('','' @ nl) (map (pretty (i + 2)) vs) @
        (CHR 0x0A # replicate i (CHR '' '')) @ '']'')"
| "pretty i (JObj kvs) =
     (if kvs = [] then ''{}''
      else let nl = CHR 0x0A # replicate (i + 2) (CHR '' '') in
        ''{'' @ nl @ join ('','' @ nl)
          (map (\<lambda>(k, v). quote k @ '': '' @ pretty (i + 2) v) kvs) @
        (CHR 0x0A # replicate i (CHR '' '')) @ ''}'')"
| "pretty i v = stringify v"

section \<open>HTTP\<close>

text \<open>
  What a \<open>fetch\<close> comes to: the promise is rejected, or there is a response, whose body
  reads as JSON or not. The gateway is outside: it chooses the outcome.
\<close>

record response =
  status :: int
  body :: "thrown + json"

definition res_ok :: "response \<Rightarrow> bool" where
  "res_ok r = (200 \<le> status r \<and> status r \<le> 299)"

type_synonym fetch_result = "thrown + response"

datatype http_method = GET | POST | DELETE

record request =
  req_method :: http_method
  req_url :: string
  req_body :: "string option"

lemma truthy_present: "truthy (present v) = truthy v"
  by (cases v rule: present.cases) simp_all

end
