(* ===== verification/RuntimeConfig.thy ===== *)
theory RuntimeConfig
  imports JSON
begin

text \<open>
  \<^verbatim>\<open>frontend/src/lib/runtimeConfig.ts\<close>: the addresses of the gateway, from the build-time
  variables and the page's location. The module's constants are functions of the environment
  record; the platform's URL parser is the parameter \<open>parse_url\<close>, which returns the
  \<open>protocol\<close> and \<open>host\<close> of a URL or nothing where the constructor throws.
\<close>

record vite_env =
  VITE_API_BASE_URL :: "string option"
  VITE_WS_BASE_URL :: "string option"

record location =
  loc_protocol :: string
  loc_host :: string

type_synonym url_parser = "string \<Rightarrow> (string \<times> string) option"

text \<open>
  \<open>value.replace(/\/+$/, "")\<close>: the leftmost match of the expression starts at the first
  position from which only slashes follow.
\<close>

fun trimTrailingSlash :: "string \<Rightarrow> string" where
  "trimTrailingSlash [] = []"
| "trimTrailingSlash (c # s) =
     (if list_all (\<lambda>d. d = CHR ''/'') (c # s) then [] else c # trimTrailingSlash s)"

definition ensureLeadingSlash :: "string \<Rightarrow> string" where
  "ensureLeadingSlash path = (if startsWith path ''/'' then path else ''/'' @ path)"

definition rawApiBase :: "vite_env \<Rightarrow> string" where
  "rawApiBase env = nullish (map_option trim (VITE_API_BASE_URL env)) []"

definition rawWsBase :: "vite_env \<Rightarrow> string" where
  "rawWsBase env = nullish (map_option trim (VITE_WS_BASE_URL env)) []"

definition apiBase :: "vite_env \<Rightarrow> string" where
  "apiBase env = (if rawApiBase env \<noteq> [] then trimTrailingSlash (rawApiBase env) else [])"

definition wsBase :: "vite_env \<Rightarrow> string" where
  "wsBase env = (if rawWsBase env \<noteq> [] then trimTrailingSlash (rawWsBase env) else [])"

definition apiUrl :: "vite_env \<Rightarrow> string \<Rightarrow> string" where
  "apiUrl env path =
     (let normalizedPath = ensureLeadingSlash path in
      if apiBase env = [] then normalizedPath else apiBase env @ normalizedPath)"

definition wsUrl :: "vite_env \<Rightarrow> url_parser \<Rightarrow> location \<Rightarrow> string \<Rightarrow> string" where
  "wsUrl env parse_url loc path =
     (let normalizedPath = ensureLeadingSlash path;
          sameOrigin = (if loc_protocol loc = ''https:'' then ''wss'' else ''ws'') @ ''://'' @
            loc_host loc @ normalizedPath in
      if wsBase env \<noteq> [] then wsBase env @ normalizedPath
      else if apiBase env \<noteq> [] then
        (case parse_url (apiBase env) of
           Some (protocol, host) \<Rightarrow>
             (if protocol = ''https:'' then ''wss:'' else ''ws:'') @ ''//'' @ host @ normalizedPath
         | None \<Rightarrow> sameOrigin)
      else sameOrigin)"

section \<open>Properties\<close>

text \<open>The scan agrees with the reference "strip all trailing slashes".\<close>

lemma trimTrailingSlash_eq: "trimTrailingSlash s = rev (dropWhile (\<lambda>d. d = CHR ''/'') (rev s))"
  by (induction s) (auto simp: dropWhile_append list_all_iff)

lemma trimTrailingSlash_suffix:
  "\<exists>n. s = trimTrailingSlash s @ replicate n (CHR ''/'')"
proof -
  let ?P = "\<lambda>d. d = CHR ''/''"
  have "takeWhile ?P (rev s) = replicate (length (takeWhile ?P (rev s))) (CHR ''/'')"
    by (metis (full_types) replicate_eqI set_takeWhileD)
  moreover have "s = trimTrailingSlash s @ rev (takeWhile ?P (rev s))"
    by (metis rev_append rev_rev_ident takeWhile_dropWhile_id trimTrailingSlash_eq)
  ultimately show ?thesis by (metis rev_replicate)
qed

lemma trimTrailingSlash_last:
  "trimTrailingSlash s \<noteq> [] \<Longrightarrow> last (trimTrailingSlash s) \<noteq> CHR ''/''"
  using hd_dropWhile [of "\<lambda>d. d = CHR ''/''" "rev s"]
  by (simp add: trimTrailingSlash_eq last_rev)

lemma trimTrailingSlash_idem [simp]: "trimTrailingSlash (trimTrailingSlash s) = trimTrailingSlash s"
  by (simp add: trimTrailingSlash_eq)

lemma ensureLeadingSlash_starts: "\<exists>p. ensureLeadingSlash path = CHR ''/'' # p"
  by (auto simp: ensureLeadingSlash_def startsWith_iff)

lemma ensureLeadingSlash_idem [simp]:
  "ensureLeadingSlash (CHR ''/'' # p) = CHR ''/'' # p"
  by (simp add: ensureLeadingSlash_def startsWith_def)

lemma apiBase_last: "apiBase env \<noteq> [] \<Longrightarrow> last (apiBase env) \<noteq> CHR ''/''"
  by (simp add: apiBase_def trimTrailingSlash_last split: if_splits)

lemma trim_id: "s = [] \<or> \<not> is_space (hd s) \<and> \<not> is_space (last s) \<Longrightarrow> trim s = s"
proof -
  assume s: "s = [] \<or> \<not> is_space (hd s) \<and> \<not> is_space (last s)"
  then have "dropWhile is_space s = s" by (auto simp: dropWhile_eq_self_iff)
  moreover have "dropWhile is_space (rev s) = rev s" using s by (auto simp: dropWhile_eq_self_iff hd_rev)
  ultimately show ?thesis by (simp add: trim_def)
qed

lemma trim_id_hd: "trim s = s \<Longrightarrow> s \<noteq> [] \<Longrightarrow> \<not> is_space (hd s)"
proof -
  assume s: "trim s = s" "s \<noteq> []"
  have "length (trim s) \<le> length (dropWhile is_space s)"
    by (metis length_dropWhile_le length_rev trim_def)
  with s have "length (takeWhile is_space s) = 0"
    by (metis add_le_same_cancel2 le_zero_eq length_append takeWhile_dropWhile_id)
  with s(2) show ?thesis by (cases s) (auto split: if_splits)
qed

lemma trim_slashes:
  assumes "trim s = s"
  shows "trim (s @ replicate n (CHR ''/'')) = s @ replicate n (CHR ''/'')"
proof (cases n)
  case (Suc m)
  have "\<not> is_space (CHR ''/'')" by (simp add: is_space_def)
  then show ?thesis using Suc trim_id_hd [OF assms] by (intro trim_id) (cases s; simp)
qed (simp add: assms)

text \<open>
  Addresses do not depend on how the base is written: any number of slashes
  after it makes no difference, a path may be given with or without its leading slash, and the
  base and the path are joined by exactly one slash.
\<close>

theorem apiUrl_robust:
  assumes "trim base = base"
  shows "apiUrl (env\<lparr>VITE_API_BASE_URL := Some (base @ replicate n (CHR ''/''))\<rparr>) path =
      apiUrl (env\<lparr>VITE_API_BASE_URL := Some base\<rparr>) path \<and>
    (\<not> startsWith path ''/'' \<longrightarrow> apiUrl env (CHR ''/'' # path) = apiUrl env path) \<and>
    (\<exists>b p. apiUrl env path = b @ CHR ''/'' # p \<and> (b = [] \<or> last b \<noteq> CHR ''/'') \<and>
      CHR ''/'' # p = ensureLeadingSlash path)"
proof (intro conjI impI)
  show "apiUrl (env\<lparr>VITE_API_BASE_URL := Some (base @ replicate n (CHR ''/''))\<rparr>) path =
      apiUrl (env\<lparr>VITE_API_BASE_URL := Some base\<rparr>) path"
  proof -
    have "trimTrailingSlash (base @ replicate n (CHR ''/'')) = trimTrailingSlash base"
      by (simp add: trimTrailingSlash_eq dropWhile_append)
    then show ?thesis using assms trim_slashes [OF assms, of n]
      by (auto simp: apiUrl_def apiBase_def rawApiBase_def Let_def)
  qed
  show "\<not> startsWith path ''/'' \<Longrightarrow> apiUrl env (CHR ''/'' # path) = apiUrl env path"
    by (simp add: apiUrl_def ensureLeadingSlash_def startsWith_def)
  obtain p where "ensureLeadingSlash path = CHR ''/'' # p" using ensureLeadingSlash_starts by blast
  then show "\<exists>b p. apiUrl env path = b @ CHR ''/'' # p \<and> (b = [] \<or> last b \<noteq> CHR ''/'') \<and>
      CHR ''/'' # p = ensureLeadingSlash path"
    using apiBase_last [of env] by (cases "apiBase env = []") (auto simp: apiUrl_def Let_def)
qed

theorem apiUrl_robust_witness:
  "apiUrl \<lparr>VITE_API_BASE_URL = Some ''https://g.example//'', VITE_WS_BASE_URL = None\<rparr> ''/api/keys'' =
   ''https://g.example/api/keys''"
proof -
  have "trim ''https://g.example'' = ''https://g.example''" by code_simp
  from apiUrl_robust [OF this, of 2 "\<lparr>VITE_API_BASE_URL = None, VITE_WS_BASE_URL = None\<rparr>" "''/api/keys''"]
  have "apiUrl \<lparr>VITE_API_BASE_URL = Some ''https://g.example//'', VITE_WS_BASE_URL = None\<rparr> ''/api/keys'' =
      apiUrl \<lparr>VITE_API_BASE_URL = Some ''https://g.example'', VITE_WS_BASE_URL = None\<rparr> ''/api/keys''"
    by (simp add: numeral_2_eq_2)
  also have "\<dots> = ''https://g.example/api/keys''" by code_simp
  finally show ?thesis .
qed

text \<open>The protocol and host the stream address is derived from.\<close>

definition stream_origin :: "vite_env \<Rightarrow> url_parser \<Rightarrow> location \<Rightarrow> string \<times> string" where
  "stream_origin env parse_url loc =
     (case (if apiBase env = [] then None else parse_url (apiBase env)) of
        Some origin \<Rightarrow> origin | None \<Rightarrow> (loc_protocol loc, loc_host loc))"

text \<open>
  C36 (safety). Without a stream base of its own, the metrics stream is encrypted exactly when
  the address it is derived from is: the API base where that parses as a URL, and otherwise the
  page itself.
\<close>

theorem stream_encrypted_iff_origin:
  assumes "wsBase env = []"
  shows "wsUrl env parse_url loc path =
      (if fst (stream_origin env parse_url loc) = ''https:'' then ''wss://'' else ''ws://'') @
      snd (stream_origin env parse_url loc) @ ensureLeadingSlash path \<and>
    (startsWith (wsUrl env parse_url loc path) ''wss://'' \<longleftrightarrow>
       fst (stream_origin env parse_url loc) = ''https:'')"
  using assms by (auto simp: wsUrl_def stream_origin_def Let_def startsWith_def split: option.splits prod.splits)

theorem stream_encrypted_iff_origin_witness:
  "wsUrl \<lparr>VITE_API_BASE_URL = None, VITE_WS_BASE_URL = None\<rparr> (\<lambda>_. None)
     \<lparr>loc_protocol = ''https:'', loc_host = ''console.example''\<rparr> ''/ws/metrics'' = ''wss://console.example/ws/metrics''"
proof -
  have "wsBase \<lparr>VITE_API_BASE_URL = None, VITE_WS_BASE_URL = None\<rparr> = []" by code_simp
  from stream_encrypted_iff_origin [OF this, of "\<lambda>_. None"
      "\<lparr>loc_protocol = ''https:'', loc_host = ''console.example''\<rparr>" "''/ws/metrics''"]
  show ?thesis by (simp add: stream_origin_def ensureLeadingSlash_def startsWith_def)
qed

end
