(* ===== verification/ClusterStore.thy ===== *)
theory ClusterStore
  imports RuntimeConfig
begin

text \<open>
  \<^verbatim>\<open>frontend/src/store.ts\<close>: the console's shared state, its synchronous actions, and the two
  asynchronous actions \<open>killNode\<close> and \<open>restartNode\<close>. An asynchronous action is two
  atomic steps, before and after its \<open>await\<close>s: an optimistic update that keeps the
  previous state aside, and the settlement of the request, which keeps the update or rolls it
  back. Between the two, any other action may run; \<open>store_step\<close> is the step relation of
  the store with any number of requests in flight.
\<close>

section \<open>State\<close>

record NodeMeta =
  node_id :: int
  host :: string
  port :: int
  healthy :: bool
  is_leader :: bool
  ops_set :: number
  ops_get :: number
  lag_ms :: number
  latency_us :: number
  key_count :: number

record MetricsPoint =
  ts :: number
  set_ops_per_sec :: number
  get_ops_per_sec :: number
  set_p50_ms :: number
  set_p99_ms :: number
  get_p50_ms :: number
  get_p99_ms :: number

datatype ws_status = WsConnecting | WsOpen | WsClosed

text \<open>
  \<open>detail\<close> is what the gateway sent (a string, unless it breaks its contract) or a text of
  the store; \<open>simulated\<close> is \<open>true\<close> or \<open>undefined\<close>.
\<close>

record NodeActionResult =
  ok :: bool
  detail :: json
  simulated :: "bool option"

record ClusterState =
  nodes :: "NodeMeta list"
  history :: "MetricsPoint list"
  forcedDownNodeIds :: "int list"
  wsStatus :: ws_status

definition initial_node :: "int \<Rightarrow> string \<Rightarrow> int \<Rightarrow> bool \<Rightarrow> rat \<Rightarrow> NodeMeta" where
  "initial_node i h p l us = \<lparr>node_id = i, host = h, port = p, healthy = True, is_leader = l,
     ops_set = 0, ops_get = 0, lag_ms = 0, latency_us = lit us, key_count = 0\<rparr>"

definition initialState :: ClusterState where
  "initialState = \<lparr>nodes = [initial_node 1 ''vaultkv-node1'' 7379 True 120,
       initial_node 2 ''vaultkv-node2'' 7380 False 145,
       initial_node 3 ''vaultkv-node3'' 7381 False 160],
     history = [], forcedDownNodeIds = [], wsStatus = WsConnecting\<rparr>"

section \<open>Actions\<close>

definition force_down :: "NodeMeta \<Rightarrow> NodeMeta" where
  "force_down n = n\<lparr>healthy := False, is_leader := False\<rparr>"

definition applyForcedDown :: "NodeMeta list \<Rightarrow> int list \<Rightarrow> NodeMeta list" where
  "applyForcedDown ns forced =
     (if length forced = 0 then ns
      else map (\<lambda>node. if node_id node \<in> set forced then force_down node else node) ns)"

definition shouldUseClientSimulation :: "string \<Rightarrow> bool" where
  "shouldUseClientSimulation d =
     (let normalized = toLowerCase d in
      str_includes normalized ''container not found'' \<or>
      str_includes normalized ''docker'' \<or>
      str_includes normalized ''permission denied'' \<or>
      str_includes normalized ''network error'' \<or>
      str_includes normalized ''connection refused'')"

definition setNodes :: "NodeMeta list \<Rightarrow> ClusterState \<Rightarrow> ClusterState" where
  "setNodes ns s = s\<lparr>nodes := applyForcedDown ns (forcedDownNodeIds s)\<rparr>"

definition pushMetrics :: "MetricsPoint \<Rightarrow> ClusterState \<Rightarrow> ClusterState" where
  "pushMetrics pt s = s\<lparr>history := slice_last 119 (history s) @ [pt]\<rparr>"

definition setStatus :: "ws_status \<Rightarrow> ClusterState \<Rightarrow> ClusterState" where
  "setStatus st s = s\<lparr>wsStatus := st\<rparr>"

subsection \<open>Forced-down identifiers\<close>

definition add_forced :: "int \<Rightarrow> int list \<Rightarrow> int list" where
  "add_forced i ids = (if i \<in> set ids then ids else ids @ [i])"

definition remove_forced :: "int \<Rightarrow> int list \<Rightarrow> int list" where
  "remove_forced i ids = filter (\<lambda>nodeId. nodeId \<noteq> i) ids"

subsection \<open>Killing and restarting a node\<close>

text \<open>The optimistic updates.\<close>

definition killNode_begin :: "int \<Rightarrow> ClusterState \<Rightarrow> ClusterState" where
  "killNode_begin i s = s\<lparr>
     forcedDownNodeIds := add_forced i (forcedDownNodeIds s),
     nodes := map (\<lambda>n. if node_id n = i then force_down n else n) (nodes s)\<rparr>"

definition restartNode_begin :: "int \<Rightarrow> ClusterState \<Rightarrow> ClusterState" where
  "restartNode_begin i s = s\<lparr>
     forcedDownNodeIds := remove_forced i (forcedDownNodeIds s),
     nodes := map (\<lambda>n. if node_id n = i then n\<lparr>healthy := True\<rparr> else n) (nodes s)\<rparr>"

definition killNode_request :: "vite_env \<Rightarrow> int \<Rightarrow> request" where
  "killNode_request env i = \<lparr>req_method = POST,
     req_url = apiUrl env (''/api/nodes/'' @ show_int i @ ''/kill''), req_body = None\<rparr>"

definition restartNode_request :: "vite_env \<Rightarrow> int \<Rightarrow> request" where
  "restartNode_request env i = \<lparr>req_method = POST,
     req_url = apiUrl env (''/api/nodes/'' @ show_int i @ ''/restart''), req_body = None\<rparr>"

text \<open>The texts in which the two settlements differ.\<close>

record action_texts =
  ok_text :: string
  fail_text :: string
  net_text :: string
  sim_text :: string

definition kill_texts :: action_texts where
  "kill_texts = \<lparr>ok_text = ''node kill applied'', fail_text = ''kill failed (HTTP '',
     net_text = ''network error during kill'',
     sim_text = ''; using client simulated node-down mode''\<rparr>"

definition restart_texts :: action_texts where
  "restart_texts = \<lparr>ok_text = ''node restart applied'', fail_text = ''restart failed (HTTP '',
     net_text = ''network error during restart'',
     sim_text = ''; using client simulated node-recover mode''\<rparr>"

definition rollback :: "ClusterState \<Rightarrow> ClusterState \<Rightarrow> ClusterState" where
  "rollback previous s = s\<lparr>nodes := nodes previous,
     forcedDownNodeIds := forcedDownNodeIds previous\<rparr>"

text \<open>\<open>await res.json().catch(() => ({}))\<close>.\<close>

definition action_body :: "response \<Rightarrow> json" where
  "action_body res = (case body res of Inr j \<Rightarrow> j | Inl _ \<Rightarrow> JObj [])"

definition action_detail :: "action_texts \<Rightarrow> response \<Rightarrow> bool \<Rightarrow> json option \<Rightarrow> json" where
  "action_detail tx res backendOk d = nullish (present d)
     (JStr (if backendOk then ok_text tx
            else fail_text tx @ show_int (status res) @ '')''))"

definition with_suffix :: "bool \<Rightarrow> action_texts \<Rightarrow> json \<Rightarrow> json" where
  "with_suffix sim tx d = (if sim then JStr (js_String d @ sim_text tx) else d)"

text \<open>
  The \<open>try\<close> block once the response is there. Reading the fields of a \<open>null\<close> body and
  lower-casing a detail that is not a string raise, which the \<open>catch\<close> block handles.
\<close>

definition try_settle :: "(string \<Rightarrow> string) \<Rightarrow> action_texts \<Rightarrow> response \<Rightarrow> thrown + NodeActionResult"
where
  "try_settle tmsg tx res =
     (let b = action_body res in
      case get_prop tmsg b ''ok'' of Inl e \<Rightarrow> Inl e | Inr vok \<Rightarrow>
      case get_prop tmsg b ''simulated'' of Inl e \<Rightarrow> Inl e | Inr vsim \<Rightarrow>
      case get_prop tmsg b ''detail'' of Inl e \<Rightarrow> Inl e | Inr vdet \<Rightarrow>
      let backendOk = truthy vok;
          backendSimulated = truthy vsim;
          d = action_detail tx res backendOk vdet in
      case (if backendOk \<or> backendSimulated then Inr False
            else case d of JStr str \<Rightarrow> Inr (shouldUseClientSimulation str)
                 | _ \<Rightarrow> Inl (Err (tmsg ''toLowerCase''))) of
        Inl e \<Rightarrow> Inl e
      | Inr clientSimulated \<Rightarrow>
          Inr \<lparr>ok = (backendOk \<or> backendSimulated \<or> clientSimulated),
               detail = with_suffix clientSimulated tx d,
               simulated = (if backendSimulated \<or> clientSimulated then Some True else None)\<rparr>)"

text \<open>The \<open>catch\<close> block.\<close>

definition catch_settle :: "action_texts \<Rightarrow> thrown \<Rightarrow> NodeActionResult" where
  "catch_settle tx e =
     (let d = (case e of Err m \<Rightarrow> m | NonErr \<Rightarrow> net_text tx);
          clientSimulated = shouldUseClientSimulation d in
      \<lparr>ok = clientSimulated,
       detail = with_suffix clientSimulated tx (JStr d),
       simulated = (if clientSimulated then Some True else None)\<rparr>)"

definition action_result :: "(string \<Rightarrow> string) \<Rightarrow> action_texts \<Rightarrow> fetch_result \<Rightarrow> NodeActionResult"
where
  "action_result tmsg tx fr =
     (case (case fr of Inl e \<Rightarrow> Inl e | Inr res \<Rightarrow> try_settle tmsg tx res) of
        Inr r \<Rightarrow> r
      | Inl e \<Rightarrow> catch_settle tx e)"

text \<open>Both blocks roll the store back exactly when they report failure.\<close>

definition settle ::
  "(string \<Rightarrow> string) \<Rightarrow> action_texts \<Rightarrow> ClusterState \<Rightarrow> fetch_result \<Rightarrow> ClusterState \<Rightarrow>
   ClusterState \<times> NodeActionResult" where
  "settle tmsg tx previous fr s =
     (let r = action_result tmsg tx fr in
      (if ok r then s else rollback previous s, r))"

definition killNode_settle where
  "killNode_settle tmsg = settle tmsg kill_texts"

definition restartNode_settle where
  "restartNode_settle tmsg = settle tmsg restart_texts"

text \<open>The whole actions, when nothing else runs between the two steps.\<close>

definition killNode :: "(string \<Rightarrow> string) \<Rightarrow> int \<Rightarrow> fetch_result \<Rightarrow> ClusterState \<Rightarrow>
   ClusterState \<times> NodeActionResult" where
  "killNode tmsg i fr s = killNode_settle tmsg s fr (killNode_begin i s)"

definition restartNode :: "(string \<Rightarrow> string) \<Rightarrow> int \<Rightarrow> fetch_result \<Rightarrow> ClusterState \<Rightarrow>
   ClusterState \<times> NodeActionResult" where
  "restartNode tmsg i fr s = restartNode_settle tmsg s fr (restartNode_begin i s)"

section \<open>The store with requests in flight\<close>

datatype action = Kill | Restart

record pending =
  act :: action
  target :: int
  previous :: ClusterState

record sys =
  store :: ClusterState
  inflight :: "pending list"

datatype store_event =
    SetNodes "NodeMeta list"
  | PushMetrics MetricsPoint
  | SetStatus ws_status
  | Begin action int
  | Settle nat fetch_result

definition begin_action :: "action \<Rightarrow> int \<Rightarrow> ClusterState \<Rightarrow> ClusterState" where
  "begin_action a = (case a of Kill \<Rightarrow> killNode_begin | Restart \<Rightarrow> restartNode_begin)"

definition settle_action :: "(string \<Rightarrow> string) \<Rightarrow> pending \<Rightarrow> fetch_result \<Rightarrow> ClusterState \<Rightarrow> ClusterState"
where
  "settle_action tmsg p fr s =
     fst ((case act p of Kill \<Rightarrow> killNode_settle | Restart \<Rightarrow> restartNode_settle)
            tmsg (previous p) fr s)"

inductive store_step :: "(string \<Rightarrow> string) \<Rightarrow> sys \<Rightarrow> store_event \<Rightarrow> sys \<Rightarrow> bool"
  for tmsg :: "string \<Rightarrow> string" where
  set_nodes: "store_step tmsg c (SetNodes ns) (c\<lparr>store := setNodes ns (store c)\<rparr>)"
| push_metrics: "store_step tmsg c (PushMetrics pt) (c\<lparr>store := pushMetrics pt (store c)\<rparr>)"
| set_status: "store_step tmsg c (SetStatus st) (c\<lparr>store := setStatus st (store c)\<rparr>)"
| begin_act: "store_step tmsg c (Begin a i)
     (c\<lparr>store := begin_action a i (store c),
        inflight := inflight c @ [\<lparr>act = a, target = i, previous = store c\<rparr>]\<rparr>)"
| settle_act: "k < length (inflight c) \<Longrightarrow>
     store_step tmsg c (Settle k fr)
       (c\<lparr>store := settle_action tmsg (inflight c ! k) fr (store c),
          inflight := take k (inflight c) @ drop (Suc k) (inflight c)\<rparr>)"

inductive_simps store_step_simps [simp]:
  "store_step tmsg c (SetNodes ns) c'"
  "store_step tmsg c (PushMetrics pt) c'"
  "store_step tmsg c (SetStatus st) c'"
  "store_step tmsg c (Begin a i) c'"
  "store_step tmsg c (Settle k fr) c'"

inductive store_run :: "(string \<Rightarrow> string) \<Rightarrow> sys \<Rightarrow> store_event list \<Rightarrow> sys \<Rightarrow> bool"
  for tmsg :: "string \<Rightarrow> string" where
  run_Nil: "store_run tmsg c [] c"
| run_Cons: "store_step tmsg c e c' \<Longrightarrow> store_run tmsg c' es c'' \<Longrightarrow> store_run tmsg c (e # es) c''"

inductive_simps store_run_simps [simp]:
  "store_run tmsg c [] c'"
  "store_run tmsg c (e # es) c'"

definition initialSys :: sys where
  "initialSys = \<lparr>store = initialState, inflight = []\<rparr>"


section \<open>Interfaces\<close>

interpretation metrics_log: bounded_log pushMetrics "\<lambda>s. rev (history s)" 120
  by unfold_locales (simp_all add: pushMetrics_def rev_slice_last)

interpretation forced: id_set add_forced remove_forced set distinct
  by unfold_locales (auto simp: add_forced_def remove_forced_def)

section \<open>Lemmas on the actions\<close>

lemma force_down_simps [simp]:
  "node_id (force_down n) = node_id n"
  "\<not> healthy (force_down n)"
  "\<not> is_leader (force_down n)"
  by (simp_all add: force_down_def)

lemma applyForcedDown_map:
  "applyForcedDown ns forced = map (\<lambda>n. if node_id n \<in> set forced then force_down n else n) ns"
  by (simp add: applyForcedDown_def)

lemma applyForcedDown_ids [simp]: "map node_id (applyForcedDown ns forced) = map node_id ns"
  by (auto simp: applyForcedDown_map)

lemma action_fields [simp]:
  "forcedDownNodeIds (setNodes ns s) = forcedDownNodeIds s"
  "history (setNodes ns s) = history s"
  "wsStatus (setNodes ns s) = wsStatus s"
  "nodes (setNodes ns s) = applyForcedDown ns (forcedDownNodeIds s)"
  "nodes (pushMetrics pt s) = nodes s"
  "forcedDownNodeIds (pushMetrics pt s) = forcedDownNodeIds s"
  "wsStatus (pushMetrics pt s) = wsStatus s"
  "nodes (setStatus st s) = nodes s"
  "history (setStatus st s) = history s"
  "forcedDownNodeIds (setStatus st s) = forcedDownNodeIds s"
  "wsStatus (setStatus st s) = st"
  "history (killNode_begin i s) = history s"
  "wsStatus (killNode_begin i s) = wsStatus s"
  "forcedDownNodeIds (killNode_begin i s) = add_forced i (forcedDownNodeIds s)"
  "history (restartNode_begin i s) = history s"
  "wsStatus (restartNode_begin i s) = wsStatus s"
  "forcedDownNodeIds (restartNode_begin i s) = remove_forced i (forcedDownNodeIds s)"
  "nodes (rollback p s) = nodes p"
  "forcedDownNodeIds (rollback p s) = forcedDownNodeIds p"
  "history (rollback p s) = history s"
  "wsStatus (rollback p s) = wsStatus s"
  by (simp_all add: setNodes_def pushMetrics_def setStatus_def killNode_begin_def
      restartNode_begin_def rollback_def)

lemma rollback_begin: "rollback s (begin_action a i s) = s"
  by (cases a) (simp_all add: rollback_def begin_action_def killNode_begin_def restartNode_begin_def)

definition texts_of :: "action \<Rightarrow> action_texts" where
  "texts_of a = (case a of Kill \<Rightarrow> kill_texts | Restart \<Rightarrow> restart_texts)"

lemma settle_action_eq:
  "settle_action tmsg p fr s =
     (if ok (action_result tmsg (texts_of (act p)) fr) then s else rollback (previous p) s)"
  by (cases "act p")
    (simp_all add: settle_action_def killNode_settle_def restartNode_settle_def settle_def
      texts_of_def Let_def)

section \<open>The invariant of the store\<close>

text \<open>
  A node the user forced down is never shown healthy or as leader, no identifier is recorded
  twice, and the metrics history keeps within its 120 points.
\<close>

definition store_inv :: "ClusterState \<Rightarrow> bool" where
  "store_inv s \<longleftrightarrow>
     (\<forall>n \<in> set (nodes s). node_id n \<in> set (forcedDownNodeIds s) \<longrightarrow> \<not> healthy n \<and> \<not> is_leader n) \<and>
     distinct (forcedDownNodeIds s) \<and> length (history s) \<le> 120"

text \<open>Requests in flight hold snapshots that may be written back, so these satisfy it too.\<close>

definition sys_inv :: "sys \<Rightarrow> bool" where
  "sys_inv c \<longleftrightarrow> store_inv (store c) \<and> (\<forall>p \<in> set (inflight c). store_inv (previous p))"

lemma store_inv_initial: "store_inv initialState"
  by (simp add: store_inv_def initialState_def)

lemma setNodes_inv [inv_intros]: "store_inv s \<Longrightarrow> store_inv (setNodes ns s)"
  by (auto simp: store_inv_def applyForcedDown_map)

lemma pushMetrics_inv [inv_intros]: "store_inv s \<Longrightarrow> store_inv (pushMetrics pt s)"
  using metrics_log.push_le_cap [of pt s] by (simp add: store_inv_def)

lemma setStatus_inv [inv_intros]: "store_inv s \<Longrightarrow> store_inv (setStatus st s)"
  by (simp add: store_inv_def)

lemma killNode_begin_inv [inv_intros]: "store_inv s \<Longrightarrow> store_inv (killNode_begin i s)"
  by (auto simp: store_inv_def forced.set_laws forced.wf_add killNode_begin_def)

lemma restartNode_begin_inv [inv_intros]: "store_inv s \<Longrightarrow> store_inv (restartNode_begin i s)"
  by (auto simp: store_inv_def forced.set_laws forced.wf_remove restartNode_begin_def)

lemma rollback_inv [inv_intros]: "store_inv p \<Longrightarrow> store_inv s \<Longrightarrow> store_inv (rollback p s)"
  by (simp add: store_inv_def)

lemma begin_action_inv [inv_intros]: "store_inv s \<Longrightarrow> store_inv (begin_action a i s)"
  by (cases a) (simp_all add: begin_action_def inv_intros)

lemma settle_action_inv [inv_intros]:
  "store_inv (previous p) \<Longrightarrow> store_inv s \<Longrightarrow> store_inv (settle_action tmsg p fr s)"
  by (simp add: settle_action_eq inv_intros)

lemma store_step_inv: "store_step tmsg c e c' \<Longrightarrow> sys_inv c \<Longrightarrow> sys_inv c'"
proof (induction rule: store_step.induct)
  case (settle_act k c fr)
  then show ?case
    by (auto simp: sys_inv_def intro: inv_intros dest: in_set_takeD in_set_dropD)
qed (auto simp: sys_inv_def intro: inv_intros)

lemma store_run_inv: "store_run tmsg c es c' \<Longrightarrow> sys_inv c \<Longrightarrow> sys_inv c'"
  by (induction rule: store_run.induct) (auto dest: store_step_inv)

section \<open>The feed: what the metrics stream does to the store\<close>

fun feed_event :: "store_event \<Rightarrow> bool" where
  "feed_event (SetNodes ns) = True"
| "feed_event (PushMetrics pt) = True"
| "feed_event (SetStatus st) = True"
| "feed_event _ = False"

definition shown_down :: "int \<Rightarrow> ClusterState \<Rightarrow> bool" where
  "shown_down i s \<longleftrightarrow> i \<in> set (forcedDownNodeIds s) \<and>
     (\<forall>n \<in> set (nodes s). node_id n = i \<longrightarrow> \<not> healthy n \<and> \<not> is_leader n)"

lemma setNodes_shown_down: "shown_down i s \<Longrightarrow> shown_down i (setNodes ns s)"
  by (auto simp: shown_down_def applyForcedDown_map)

lemma feed_step_frame:
  assumes "store_step tmsg c e c'" "feed_event e"
  shows "inflight c' = inflight c \<and> forcedDownNodeIds (store c') = forcedDownNodeIds (store c)"
  using assms by (cases e) simp_all

lemma feed_step_down:
  assumes "store_step tmsg c e c'" "feed_event e" "shown_down i (store c)"
  shows "shown_down i (store c')"
  using assms by (cases e) (simp_all add: setNodes_shown_down, simp_all add: shown_down_def)

lemmas feed_step = feed_step_frame feed_step_down

lemma feed_run:
  assumes "store_run tmsg c es c'" "list_all feed_event es"
  shows "inflight c' = inflight c \<and>
     forcedDownNodeIds (store c') = forcedDownNodeIds (store c) \<and>
     (shown_down i (store c) \<longrightarrow> shown_down i (store c'))"
  using assms
  by (induction rule: store_run.induct) (auto simp: feed_step)

lemma store_run_append:
  "store_run tmsg c (es @ fs) c'' \<longleftrightarrow> (\<exists>c'. store_run tmsg c es c' \<and> store_run tmsg c' fs c'')"
  by (induction es arbitrary: c) auto

lemma killNode_begin_down:
  "n \<in> set (nodes (killNode_begin i s)) \<Longrightarrow> node_id n = i \<Longrightarrow> \<not> healthy n \<and> \<not> is_leader n"
  by (simp add: killNode_begin_def) (elim imageE, simp)

lemma killNode_begin_shown_down: "shown_down i (killNode_begin i s)"
  using killNode_begin_down by (simp add: shown_down_def forced.ids_add)

lemma get_prop_cases:
  "get_prop tmsg b k =
     (if b = JNull then Inl (Err (tmsg k))
      else Inr (case b of JObj kvs \<Rightarrow> map_of kvs k | _ \<Rightarrow> None))"
  by (cases b) simp_all

lemma confirmed_success:
  assumes "ok (action_result tmsg tx fr)" "simulated (action_result tmsg tx fr) = None"
  shows "\<exists>res v. fr = Inr res \<and> get_prop tmsg (action_body res) ''ok'' = Inr v \<and> truthy v"
proof (cases "\<exists>res r. fr = Inr res \<and> try_settle tmsg tx res = Inr r")
  case True
  then obtain res r where r: "fr = Inr res" "try_settle tmsg tx res = Inr r" by blast
  with assms have "ok r" "simulated r = None" by (simp_all add: action_result_def)
  with r show ?thesis
    by (auto simp: try_settle_def Let_def get_prop_cases split: if_splits sum.splits json.splits)
next
  case False
  then have "\<exists>e. action_result tmsg tx fr = catch_settle tx e"
    by (auto simp: action_result_def split: sum.splits)
  with assms show ?thesis by (auto simp: catch_settle_def Let_def split: if_splits)
qed

section \<open>Properties of the store\<close>

text \<open>
  C9 (invariant). In every state the store can reach, by any interleaving of stream updates
  and of any number of kill and restart requests in flight, whatever the gateway answers: a
  node that is forced down is shown neither healthy nor as leader, the forced-down list has no
  duplicates, and the metrics history has at most 120 points.
\<close>

theorem forced_down_invariant:
  assumes "store_run tmsg initialSys es c"
  shows "store_inv (store c)"
proof -
  have "sys_inv initialSys" by (simp add: sys_inv_def initialSys_def store_inv_initial)
  with assms show ?thesis using store_run_inv by (auto simp: sys_inv_def)
qed

theorem forced_down_invariant_witness:
  "store_inv (store (initialSys
      \<lparr>store := setNodes [initial_node 1 ''vaultkv-node1'' 7379 True 120] (killNode_begin 1 initialState),
       inflight := [\<lparr>act = Kill, target = 1, previous = initialState\<rparr>]\<rparr>))"
  by (rule forced_down_invariant
        [where es = "[Begin Kill 1, SetNodes [initial_node 1 ''vaultkv-node1'' 7379 True 120]]"
           and tmsg = "\<lambda>_. []"])
    (simp add: initialSys_def begin_action_def)

text \<open>Outcomes of a request used by the witnesses: an acknowledged and a refused one.\<close>

definition fr_ack :: fetch_result where
  "fr_ack = Inr \<lparr>status = 200, body = Inr (JObj [(''ok'', JBool True)])\<rparr>"

definition fr_refused :: fetch_result where
  "fr_refused = Inr \<lparr>status = 500, body = Inr (JObj [(''ok'', JBool False), (''detail'', JStr ''boom'')])\<rparr>"

lemma fr_ack_ok: "ok (action_result tmsg tx fr_ack)" "simulated (action_result tmsg tx fr_ack) = None"
  by (simp_all add: fr_ack_def action_result_def try_settle_def action_body_def Let_def)

lemma shouldUse_boom: "\<not> shouldUseClientSimulation ''boom''"
  by code_simp

lemma fr_refused_not_ok: "\<not> ok (action_result tmsg tx fr_refused)"
  using shouldUse_boom
  by (simp add: fr_refused_def action_result_def try_settle_def action_body_def action_detail_def Let_def)

text \<open>
  C8 (safety). An accepted kill sticks: once the gateway's answer to \<open>killNode(i)\<close> is accepted,
  the node stays recorded as forced down and is shown down after any further stream updates,
  whatever snapshots arrived while the request was in flight or arrive later.
\<close>

theorem accepted_kill_sticks:
  assumes "ok (action_result tmsg kill_texts fr)"
    and "list_all feed_event es" and "list_all feed_event fs"
    and "store_run tmsg \<lparr>store = s, inflight = []\<rparr> (Begin Kill i # es @ Settle 0 fr # fs) c"
  shows "shown_down i (store c) \<and> inflight c = []"
proof -
  let ?c0 = "\<lparr>store = killNode_begin i s, inflight = [\<lparr>act = Kill, target = i, previous = s\<rparr>]\<rparr>"
  from assms(4) obtain c1 c2 where run: "store_run tmsg ?c0 es c1"
    "store_step tmsg c1 (Settle 0 fr) c2" "store_run tmsg c2 fs c"
    by (auto simp: store_run_append begin_action_def simp del: store_step_simps(5))
  have 1: "inflight c1 = inflight ?c0 \<and> shown_down i (store c1)"
    using feed_run [OF run(1) assms(2)] killNode_begin_shown_down by simp
  with run(2) assms(1) have "store c2 = store c1 \<and> inflight c2 = []"
    by (simp add: settle_action_eq texts_of_def)
  with 1 feed_run [OF run(3) assms(3)] show ?thesis by simp
qed

theorem accepted_kill_sticks_witness:
  "shown_down 2 (setNodes (nodes initialState) (killNode_begin 2 initialState))"
  using accepted_kill_sticks [of "\<lambda>_. []" fr_ack "[]" "[SetNodes (nodes initialState)]" initialState 2
      "\<lparr>store = setNodes (nodes initialState) (killNode_begin 2 initialState), inflight = []\<rparr>"]
  by (simp add: fr_ack_ok settle_action_eq texts_of_def begin_action_def)

text \<open>
  C13 (functional). A refused kill or restart restores the node list and the forced-down list
  to what they were before the action. The restored list is the one saved before the request:
  every snapshot the stream delivered while the request was in flight is discarded with it.
\<close>

theorem refused_action_rolls_back:
  assumes "\<not> ok (action_result tmsg (texts_of a) fr)"
    and "list_all feed_event es"
    and "store_run tmsg \<lparr>store = s, inflight = []\<rparr> (Begin a i # es @ [Settle 0 fr]) c"
  shows "nodes (store c) = nodes s \<and> forcedDownNodeIds (store c) = forcedDownNodeIds s \<and>
     inflight c = []"
proof -
  let ?c0 = "\<lparr>store = begin_action a i s, inflight = [\<lparr>act = a, target = i, previous = s\<rparr>]\<rparr>"
  from assms(3) obtain c1 where run: "store_run tmsg ?c0 es c1" "store_step tmsg c1 (Settle 0 fr) c"
    by (auto simp: store_run_append simp del: store_step_simps(5))
  have "inflight c1 = inflight ?c0" using feed_run [OF run(1) assms(2)] by simp
  with run(2) assms(1) show ?thesis by (simp add: settle_action_eq)
qed

theorem refused_action_rolls_back_witness:
  "nodes (rollback initialState (setNodes [] (killNode_begin 2 initialState))) = nodes initialState"
  using refused_action_rolls_back [of "\<lambda>_. []" Kill fr_refused "[SetNodes []]" initialState 2
      "\<lparr>store = rollback initialState (setNodes [] (killNode_begin 2 initialState)), inflight = []\<rparr>"]
  by (simp add: fr_refused_not_ok settle_action_eq texts_of_def begin_action_def)

text \<open>
  C37 (error). Two overlapping kills: if the one that started first is refused after the other
  was accepted, the roll back also erases the accepted one. Node \<open>j\<close> is no longer forced
  down and the node list is the one from before both actions, although \<open>killNode(j)\<close> reported
  success.
\<close>

theorem overlapping_rollback_loses_kill:
  assumes "i \<noteq> j" "j \<notin> set (forcedDownNodeIds s)"
    and "ok (action_result tmsg kill_texts fr2)"
    and "\<not> ok (action_result tmsg kill_texts fr1)"
    and "store_run tmsg \<lparr>store = s, inflight = []\<rparr>
      [Begin Kill i, Begin Kill j, Settle 1 fr2, Settle 0 fr1] c"
  shows "j \<notin> set (forcedDownNodeIds (store c)) \<and> nodes (store c) = nodes s"
  using assms by (auto simp: settle_action_eq texts_of_def)

theorem overlapping_rollback_loses_kill_witness:
  "2 \<notin> set (forcedDownNodeIds (rollback initialState (killNode_begin 2 (killNode_begin 1 initialState))))"
  using overlapping_rollback_loses_kill [of 1 2 initialState "\<lambda>_. []" fr_ack fr_refused
      "\<lparr>store = rollback initialState (killNode_begin 2 (killNode_begin 1 initialState)), inflight = []\<rparr>"]
  by (simp add: fr_refused_not_ok fr_ack_ok settle_action_eq texts_of_def begin_action_def
      initialState_def)

text \<open>
  C26 (safety). An action that reports success without the \<open>simulated\<close> mark was confirmed by
  the gateway: there was a response, and its body carried a true \<open>ok\<close> field. Every other
  success is marked as simulated.
\<close>

theorem unsimulated_success_is_confirmed:
  assumes "ok (action_result tmsg tx fr)" "simulated (action_result tmsg tx fr) = None"
  shows "\<exists>res v. fr = Inr res \<and> get_prop tmsg (action_body res) ''ok'' = Inr v \<and> truthy v"
  using assms by (rule confirmed_success)

theorem unsimulated_success_is_confirmed_witness:
  "\<exists>res v. fr_ack = Inr res \<and> get_prop (\<lambda>_. []) (action_body res) ''ok'' = Inr v \<and> truthy v"
  by (rule unsimulated_success_is_confirmed [of _ kill_texts]) (rule fr_ack_ok)+

text \<open>
  Frame: whatever the gateway answers, \<open>killNode(i)\<close> and \<open>restartNode(i)\<close>
  keep every other node as it was, the identifiers of the node list and their order, the
  metrics history and the connection status.
\<close>

theorem node_action_frame:
  assumes "(s', r) = killNode tmsg i fr s \<or> (s', r) = restartNode tmsg i fr s"
  shows "filter (\<lambda>n. node_id n \<noteq> i) (nodes s') = filter (\<lambda>n. node_id n \<noteq> i) (nodes s) \<and>
     map node_id (nodes s') = map node_id (nodes s) \<and>
     history s' = history s \<and> wsStatus s' = wsStatus s"
proof -
  have fm: "filter (\<lambda>n. node_id n \<noteq> i) (map (\<lambda>n. if node_id n = i then f n else n) ns)
      = filter (\<lambda>n. node_id n \<noteq> i) ns \<and>
      map node_id (map (\<lambda>n. if node_id n = i then f n else n) ns) = map node_id ns"
    if "\<And>n. node_id (f n) = node_id n" for f :: "NodeMeta \<Rightarrow> NodeMeta" and ns
    using that by (induction ns) auto
  from assms have "s' \<in> {killNode_begin i s, restartNode_begin i s,
      rollback s (killNode_begin i s), rollback s (restartNode_begin i s)}"
    by (auto simp: killNode_def restartNode_def killNode_settle_def restartNode_settle_def
        settle_def Let_def split: if_splits)
  then show ?thesis
    using fm [of force_down "nodes s"] fm [of "\<lambda>n. n\<lparr>healthy := True\<rparr>" "nodes s"]
    by (auto simp: killNode_begin_def restartNode_begin_def rollback_def)
qed

theorem node_action_frame_witness:
  "map node_id (nodes (fst (killNode (\<lambda>_. []) 1 fr_ack initialState))) = map node_id (nodes initialState)"
  using node_action_frame [of "fst (killNode (\<lambda>_. []) 1 fr_ack initialState)"
      "snd (killNode (\<lambda>_. []) 1 fr_ack initialState)" "\<lambda>_. []" 1 fr_ack initialState]
  by simp

text \<open>
  A restart hands the node back to the gateway: after the optimistic update of
  \<open>restartNode(i)\<close>, the next snapshot shows node \<open>i\<close> exactly as the gateway reported it, and
  a kill followed by a restart leaves the set of forced-down identifiers as it was.
\<close>

theorem restart_releases_node:
  "filter (\<lambda>n. node_id n = i) (nodes (setNodes ns (restartNode_begin i s))) =
     filter (\<lambda>n. node_id n = i) ns \<and>
   set (forcedDownNodeIds (restartNode_begin i (killNode_begin i s))) =
     set (forcedDownNodeIds s) - {i}"
proof
  have "i \<notin> set (forcedDownNodeIds (restartNode_begin i s))" by (simp add: forced.ids_remove)
  then show "filter (\<lambda>n. node_id n = i) (nodes (setNodes ns (restartNode_begin i s))) =
     filter (\<lambda>n. node_id n = i) ns"
    by (simp only: action_fields applyForcedDown_map) (induction ns, auto)
qed (simp add: forced.set_laws)

text \<open>
  The metrics history is the most recent 120 points, oldest first: after any
  sequence of pushes from a history within the bound, nothing else is dropped or reordered.
\<close>

theorem history_is_most_recent:
  assumes "length (history s) \<le> 120"
  shows "history (fold pushMetrics pts s) = slice_last 120 (history s @ pts)"
proof -
  have "rev (history (fold pushMetrics pts s)) = take 120 (rev (history s @ pts))"
    using metrics_log.entries_fold [of s pts] assms by simp
  then show ?thesis by (metis rev_rev_ident rev_slice_last)
qed

theorem history_is_most_recent_witness:
  "let pt = \<lparr>ts = Fin 1, set_ops_per_sec = Fin 2, get_ops_per_sec = Fin 3, set_p50_ms = Fin 1,
      set_p99_ms = Fin 1, get_p50_ms = Fin 1, get_p99_ms = Fin 1\<rparr> in
   history (fold pushMetrics (replicate 121 pt) initialState) = replicate 120 pt"
proof -
  have "length (history initialState) \<le> 120" "history initialState = []" by (simp_all add: initialState_def)
  then show ?thesis unfolding Let_def by (simp only: history_is_most_recent slice_last_def) simp
qed

text \<open>
  A gateway that cannot be reached does not switch to client simulation: none of
  the messages with which the browsers reject a \<open>fetch\<close> contains one of the phrases the store
  looks for, so a kill or restart without a network is refused and undone.
\<close>

theorem offline_action_is_refused:
  assumes "m \<in> {''Failed to fetch'', ''NetworkError when attempting to fetch resource.'', ''Load failed''}"
  shows "killNode tmsg i (Inl (Err m)) s =
      (rollback s (killNode_begin i s), \<lparr>ok = False, detail = JStr m, simulated = None\<rparr>) \<and>
    restartNode tmsg i (Inl (Err m)) s =
      (rollback s (restartNode_begin i s), \<lparr>ok = False, detail = JStr m, simulated = None\<rparr>)"
proof -
  have "\<forall>m \<in> {''Failed to fetch'', ''NetworkError when attempting to fetch resource.'', ''Load failed''}.
      \<not> shouldUseClientSimulation m" by code_simp
  then have "\<not> shouldUseClientSimulation m" using assms by blast
  then show ?thesis
    by (simp add: killNode_def killNode_settle_def restartNode_def restartNode_settle_def settle_def
        action_result_def catch_settle_def with_suffix_def Let_def)
qed

theorem offline_action_is_refused_witness:
  "\<not> ok (snd (killNode (\<lambda>k. k) 1 (Inl (Err ''Failed to fetch'')) initialState))"
  using offline_action_is_refused [of "''Failed to fetch''" "\<lambda>k. k" 1 initialState] by simp

end
