(* ===== verification/PageStores.thy ===== *)
theory PageStores
  imports ClusterStore
begin

text \<open>
  The stores of the page set under \<^verbatim>\<open>frontend/src/pages\<close>:
  \<^verbatim>\<open>store/clusterStore.ts\<close> and \<^verbatim>\<open>store/metricsStore.ts\<close>. Their node record adds two
  optional fields to the one of \<^verbatim>\<open>store.ts\<close>; the functions below are polymorphic in the
  extension, so that they can be compared with the ones of the main store.
\<close>

record PageNodeMeta = NodeMeta +
  last_seen :: "number option"
  wal_seq :: "number option"

record 'n PageClusterState =
  pc_nodes :: "'n list"
  pc_wsStatus :: ws_status
  pc_lastUpdated :: "number option"

record MetricsState =
  m_history :: "MetricsPoint list"

definition pc_initial :: "'n PageClusterState" where
  "pc_initial = \<lparr>pc_nodes = [], pc_wsStatus = WsConnecting, pc_lastUpdated = None\<rparr>"

text \<open>\<open>now\<close> is \<open>Date.now()\<close> at the call.\<close>

definition pc_setNodes :: "number \<Rightarrow> 'n list \<Rightarrow> 'n PageClusterState \<Rightarrow> 'n PageClusterState" where
  "pc_setNodes now ns s = s\<lparr>pc_nodes := ns, pc_lastUpdated := Some now\<rparr>"

definition pc_setStatus :: "ws_status \<Rightarrow> 'n PageClusterState \<Rightarrow> 'n PageClusterState" where
  "pc_setStatus st s = s\<lparr>pc_wsStatus := st\<rparr>"

definition m_initial :: MetricsState where
  "m_initial = \<lparr>m_history = []\<rparr>"

definition m_push :: "MetricsPoint \<Rightarrow> MetricsState \<Rightarrow> MetricsState" where
  "m_push pt s = s\<lparr>m_history := slice_last 119 (m_history s) @ [pt]\<rparr>"

interpretation page_metrics_log: bounded_log m_push "\<lambda>s. rev (m_history s)" 120
  by unfold_locales (simp_all add: m_push_def rev_slice_last)

end
