(* ===== verification/Ingest.thy ===== *)
theory Ingest
  imports PageStores
begin

text \<open>
  How a cluster snapshot becomes metrics: \<open>consumeSnapshot\<close> of \<^verbatim>\<open>frontend/src/hooks.ts\<close>
  (main store) and \<open>ingest\<close> of \<^verbatim>\<open>frontend/src/hooks/useClusterWS.ts\<close> (page stores).
  A snapshot that carries all six metrics is recorded as it is; otherwise rates are derived
  from the operation counters of two successive snapshots and latencies from the nodes' mean.
\<close>

section \<open>Snapshots\<close>

text \<open>
  The fields of the parsed object the functions look at. A metric is \<open>None\<close> where its
  \<open>typeof\<close> is not \<open>"number"\<close>; \<open>sn_nodes\<close> is \<open>None\<close> where \<open>data.nodes\<close> is no
  array. The elements of the array are taken at their asserted type.
\<close>

record 'n snapshot =
  sn_nodes :: "'n list option"
  sn_ts :: "number option"
  sn_set_ops :: "number option"
  sn_get_ops :: "number option"
  sn_set_p50 :: "number option"
  sn_set_p99 :: "number option"
  sn_get_p50 :: "number option"
  sn_get_p99 :: "number option"

text \<open>The totals remembered from the previous derivation: time, set and get operations.\<close>

record totals_at =
  at_ts :: number
  at_set :: number
  at_get :: number

text \<open>\<open>hasOps\<close> and the point it records, in one: all six metrics are numbers.\<close>

definition direct_point :: "number \<Rightarrow> 'n snapshot \<Rightarrow> MetricsPoint option" where
  "direct_point t d =
     (case (sn_set_ops d, sn_get_ops d, sn_set_p50 d, sn_set_p99 d, sn_get_p50 d, sn_get_p99 d) of
        (Some so, Some go, Some s50, Some s99, Some g50, Some g99) \<Rightarrow>
          Some \<lparr>ts = t, set_ops_per_sec = so, get_ops_per_sec = go, set_p50_ms = s50,
                set_p99_ms = s99, get_p50_ms = g50, get_p99_ms = g99\<rparr>
      | _ \<Rightarrow> None)"

definition totals :: "'a NodeMeta_scheme list \<Rightarrow> number \<times> number" where
  "totals ns = foldl (\<lambda>(s, g) n. if healthy n then (s + ops_set n, g + ops_get n) else (s, g)) (0, 0) ns"

definition avgLatencyUs :: "'a NodeMeta_scheme list \<Rightarrow> number" where
  "avgLatencyUs ns =
     (let healthyNodes = filter healthy ns in
      foldl (\<lambda>sum n. sum + latency_us n) 0 healthyNodes /
        Math_max (lit 1) (num_nat (length healthyNodes)))"

definition derived_point :: "number \<Rightarrow> number \<Rightarrow> number \<Rightarrow> number \<Rightarrow> MetricsPoint" where
  "derived_point t setOps getOps baseMs = \<lparr>ts = t, set_ops_per_sec = setOps, get_ops_per_sec = getOps,
     set_p50_ms = Math_max (lit (1/100)) (baseMs * lit (95/100)),
     set_p99_ms = Math_max (lit (2/100)) (baseMs * lit (175/100)),
     get_p50_ms = Math_max (lit (1/100)) (baseMs * lit (7/10)),
     get_p99_ms = Math_max (lit (2/100)) (baseMs * lit (135/100))\<rparr>"

definition elapsed :: "number \<Rightarrow> totals_at \<Rightarrow> number" where
  "elapsed t prev = Math_max (lit (1/1000)) (t - at_ts prev)"

section \<open>hooks.ts\<close>

record feed =
  fd_store :: ClusterState
  fd_previous :: "totals_at option"

definition hook_rate :: "number \<Rightarrow> number \<Rightarrow> number \<Rightarrow> number" where
  "hook_rate cur prev dt = Math_max 0 (Math_round ((cur - prev) / dt))"

text \<open>\<open>now\<close> is \<open>Date.now() / 1000\<close>.\<close>

definition consumeSnapshot :: "number \<Rightarrow> NodeMeta snapshot \<Rightarrow> feed \<Rightarrow> feed" where
  "consumeSnapshot now data f =
     (let t = nullish (sn_ts data) now;
          s = (case sn_nodes data of Some ns \<Rightarrow> setNodes ns (fd_store f) | None \<Rightarrow> fd_store f) in
      case direct_point t data of
        Some pt \<Rightarrow> f\<lparr>fd_store := pushMetrics pt s\<rparr>
      | None \<Rightarrow>
        (case sn_nodes data of
           None \<Rightarrow> f\<lparr>fd_store := s\<rparr>
         | Some ns \<Rightarrow>
           (let (tset, tget) = totals ns;
                current = \<lparr>at_ts = t, at_set = tset, at_get = tget\<rparr> in
            case fd_previous f of
              None \<Rightarrow> \<lparr>fd_store = s, fd_previous = Some current\<rparr>
            | Some prev \<Rightarrow>
              (let dt = elapsed t prev;
                   setOps = hook_rate tset (at_set prev) dt;
                   getOps = hook_rate tget (at_get prev) dt;
                   baseMs = avgLatencyUs ns / lit 1000 in
               \<lparr>fd_store = pushMetrics (derived_point t setOps getOps baseMs) s,
                fd_previous = Some current\<rparr>))))"

section \<open>hooks/useClusterWS.ts\<close>

record 'n page_feed =
  pf_cluster :: "'n PageClusterState"
  pf_metrics :: MetricsState
  pf_previous :: "totals_at option"

definition page_rate :: "number \<Rightarrow> number \<Rightarrow> number \<Rightarrow> number" where
  "page_rate cur prev dt = (let delta = Math_max 0 (cur - prev) in Math_round (delta / dt))"

text \<open>\<open>nowMs\<close> is \<open>Date.now()\<close>.\<close>

definition ingest ::
  "number \<Rightarrow> 'a NodeMeta_scheme snapshot \<Rightarrow> 'a NodeMeta_scheme page_feed \<Rightarrow> 'a NodeMeta_scheme page_feed"
where
  "ingest nowMs data f =
     (let t = nullish (sn_ts data) (nowMs / lit 1000);
          f' = (case sn_nodes data of
                  Some ns \<Rightarrow> f\<lparr>pf_cluster := pc_setNodes nowMs ns (pf_cluster f)\<rparr>
                | None \<Rightarrow> f) in
      case direct_point t data of
        Some pt \<Rightarrow> f'\<lparr>pf_metrics := m_push pt (pf_metrics f')\<rparr>
      | None \<Rightarrow>
        (case sn_nodes data of
           None \<Rightarrow> f'
         | Some ns \<Rightarrow>
           (let (tset, tget) = totals ns;
                current = \<lparr>at_ts = t, at_set = tset, at_get = tget\<rparr> in
            case pf_previous f' of
              None \<Rightarrow> f'\<lparr>pf_previous := Some current\<rparr>
            | Some prev \<Rightarrow>
              (let dt = elapsed t prev;
                   setOps = page_rate tset (at_set prev) dt;
                   getOps = page_rate tget (at_get prev) dt;
                   baseMs = avgLatencyUs ns / lit 1000 in
               f'\<lparr>pf_metrics := m_push (derived_point t setOps getOps baseMs) (pf_metrics f'),
                  pf_previous := Some current\<rparr>))))"

section \<open>Lemmas\<close>

text \<open>Timestamps within the range in which differences cannot overflow.\<close>

definition sane_ts :: "number \<Rightarrow> bool" where
  "sane_ts t \<longleftrightarrow> (\<exists>r. t = Fin r \<and> \<bar>r\<bar> \<le> 2 ^ 1000)"

lemma sane_diff:
  assumes "sane_ts t" "sane_ts u"
  shows "\<exists>v. t - u = Fin v"
proof -
  obtain a b where ab: "t = Fin a" "u = Fin b" "\<bar>a\<bar> \<le> 2 ^ 1000" "\<bar>b\<bar> \<le> 2 ^ 1000"
    using assms by (auto simp: sane_ts_def)
  have p: "(2::rat) ^ 1001 = 2 ^ 1000 + 2 ^ 1000" by (simp add: power_add [symmetric] flip: mult_2 power_Suc)
  have "fl (a - b) \<le> fl (2 ^ 1001)" "fl (- (2 ^ 1001)) \<le> fl (a - b)"
    using ab by (intro fl_mono; simp only: p; linarith)+
  moreover have "(2::rat) ^ 1001 < 2 ^ 1024" by (simp only: power_strict_increasing_iff)
  ultimately have "\<not> 2 ^ 1024 \<le> fl (a - b)" "\<not> fl (a - b) \<le> - (2 ^ 1024)"
    by (simp_all only: fl_pow2 fl_minus)
  with ab show ?thesis by (simp add: num_of_def Let_def)
qed

lemma elapsed_pos:
  assumes "sane_ts t" "sane_ts (at_ts prev)"
  shows "\<exists>q. 0 < q \<and> elapsed t prev = Fin q"
proof -
  obtain v where v: "t - at_ts prev = Fin v" using sane_diff [OF assms] by blast
  have "0 < fl (1 / 1000)" by code_simp
  then show ?thesis by (auto simp: elapsed_def v lit_def)
qed

text \<open>The two rate computations agree.\<close>

lemma rates_agree:
  assumes "sane_ts t" "sane_ts (at_ts prev)"
  shows "hook_rate a b (elapsed t prev) = page_rate a b (elapsed t prev)"
proof -
  obtain q where "0 < q" "elapsed t prev = Fin q" using elapsed_pos [OF assms] by blast
  then show ?thesis by (simp add: hook_rate_def page_rate_def clamp_rate Let_def)
qed

text \<open>What the two feeds have in common.\<close>

definition feeds_agree :: "feed \<Rightarrow> NodeMeta page_feed \<Rightarrow> bool" where
  "feeds_agree f g \<longleftrightarrow> history (fd_store f) = m_history (pf_metrics g) \<and>
     fd_previous f = pf_previous g \<and> (\<forall>p. fd_previous f = Some p \<longrightarrow> sane_ts (at_ts p))"

lemma history_pushMetrics: "history (pushMetrics pt s) = slice_last 119 (history s) @ [pt]"
  by (simp add: pushMetrics_def)

lemma consume_ingest_step:
  assumes "feeds_agree f g" "sane_ts (nullish (sn_ts d) (nowMs / lit 1000))"
  shows "feeds_agree (consumeSnapshot (nowMs / lit 1000) d f) (ingest nowMs d g)"
  using assms
  by (auto simp: feeds_agree_def consumeSnapshot_def ingest_def Let_def rates_agree
      history_pushMetrics m_push_def split: option.split prod.split)

section \<open>Derived metrics\<close>

lemma foldl_latency_nonneg:
  assumes "\<forall>n \<in> set ns. \<exists>r. latency_us n = Fin r \<and> 0 \<le> r" "Fin 0 \<le> a"
  shows "Fin 0 \<le> foldl (\<lambda>sum n. sum + latency_us n) a ns"
  using assms
proof (induction ns arbitrary: a)
  case (Cons n ns)
  then obtain r where r: "latency_us n = Fin r" "0 \<le> r" by auto
  then have "Fin 0 \<le> a + latency_us n"
    using Cons.prems(2) by (cases a) (simp_all add: num_of_nonneg)
  with Cons show ?case by simp
qed simp

lemma num_div_nonneg: "Fin 0 \<le> a \<Longrightarrow> 0 < q \<Longrightarrow> Fin 0 \<le> a / Fin q"
  by (cases a) (simp_all add: num_of_nonneg)

lemma avgLatency_nonneg:
  assumes "\<forall>n \<in> set ns. healthy n \<longrightarrow> (\<exists>r. latency_us n = Fin r \<and> 0 \<le> r)" "length ns < 2 ^ 32"
  shows "Fin 0 \<le> avgLatencyUs ns / lit 1000"
proof -
  have "length (filter healthy ns) < 2 ^ 32"
    using assms(2) length_filter_le [of healthy ns] by linarith
  then have "\<exists>q. 0 < q \<and> Math_max (lit 1) (num_nat (length (filter healthy ns))) = Fin q"
    by (auto simp: num_nat_small)
  moreover have "Fin 0 \<le> foldl (\<lambda>sum n. sum + latency_us n) 0 (filter healthy ns)"
    using assms(1) by (intro foldl_latency_nonneg) (auto simp: zero_number_def)
  moreover have "0 < fl 1000" by code_simp
  ultimately show ?thesis by (auto simp: avgLatencyUs_def Let_def lit_def num_div_nonneg)
qed

text \<open>A factor between two literals keeps its order under rounding, and the floors are ordered.\<close>

lemma percentile_le:
  assumes "Fin 0 \<le> base" "0 < fl a" "fl a \<le> fl b" "fl lo \<le> fl hi"
  shows "Math_max (lit lo) (base * lit a) \<le> Math_max (lit hi) (base * lit b)"
proof (rule Math_max_mono)
  show "lit lo \<le> lit hi" using assms by (simp add: lit_def)
  show "base * lit a \<le> base * lit b"
    using assms by (cases base) (auto simp: lit_def num_inf_def intro: num_of_mono mult_left_mono)
qed

lemma literal_order:
  "fl (1/100) \<le> fl (2/100)" "0 < fl (95/100)" "fl (95/100) \<le> fl (175/100)"
  "0 < fl (7/10)" "fl (7/10) \<le> fl (135/100)" "0 < fl (1/100)" "0 < fl (2/100)"
  "0 < fl (175/100)" "0 < fl (135/100)"
  by code_simp+

lemma scaled_not_NaN: "Fin 0 \<le> base \<Longrightarrow> 0 < fl a \<Longrightarrow> base * lit a \<noteq> NaN"
  by (cases base) (auto simp: lit_def num_inf_def)

lemma floor_holds: "Fin 0 \<le> base \<Longrightarrow> 0 < fl a \<Longrightarrow> lit lo \<le> Math_max (lit lo) (base * lit a)"
  using Math_max_ge [of "lit lo" "base * lit a"] scaled_not_NaN [of base a] by (simp add: lit_def)

lemma derived_point_percentiles:
  assumes "Fin 0 \<le> base"
  shows "set_p50_ms (derived_point t so go base) \<le> set_p99_ms (derived_point t so go base)"
    and "get_p50_ms (derived_point t so go base) \<le> get_p99_ms (derived_point t so go base)"
    and "lit (1/100) \<le> set_p50_ms (derived_point t so go base)"
    and "lit (1/100) \<le> get_p50_ms (derived_point t so go base)"
    and "lit (2/100) \<le> set_p99_ms (derived_point t so go base)"
    and "lit (2/100) \<le> get_p99_ms (derived_point t so go base)"
  unfolding derived_point_def MetricsPoint.select_convs
  by (intro percentile_le floor_holds assms literal_order)+

lemma hook_rate_nonneg: "hook_rate a b dt = NaN \<or> Fin 0 \<le> hook_rate a b dt"
  using Math_max_ge [of "Fin 0" "Math_round ((a - b) / dt)"]
  by (auto simp: hook_rate_def zero_number_def Math_max_eq)

text \<open>Counters that are natural numbers are added and subtracted exactly.\<close>

lemma fst_totals: "fst (totals ns) = foldl (\<lambda>s n. if healthy n then s + ops_set n else s) 0 ns"
proof -
  have "fst (foldl (\<lambda>(s, g) n. if healthy n then (s + ops_set n, g + ops_get n) else (s, g)) sg ns) =
      foldl (\<lambda>s n. if healthy n then s + ops_set n else s) (fst sg) ns" for sg
  proof (induction ns arbitrary: sg)
    case (Cons n ns)
    then show ?case by (cases sg) simp
  qed simp
  from this [of "(0, 0)"] show ?thesis by (simp add: totals_def)
qed

lemma nat_counters:
  assumes "\<forall>n \<in> set ns. healthy n \<longrightarrow> ops_set n = Fin (of_nat (w n))"
    and "a + sum_list (map w (filter healthy ns)) \<le> 2 ^ 53"
  shows "foldl (\<lambda>s n. if healthy n then s + ops_set n else s) (Fin (of_nat a)) ns =
    Fin (of_nat (a + sum_list (map w (filter healthy ns))))"
  using assms
proof (induction ns arbitrary: a)
  case (Cons n ns)
  show ?case
  proof (cases "healthy n")
    case True
    have b: "a + w n \<le> 2 ^ 53" using Cons.prems(2) True by simp
    then have "int (a + w n) \<le> 2 ^ 53" by (metis of_nat_le_iff of_nat_numeral of_nat_power)
    then have "num_of (of_int (int (a + w n))) = Fin (of_int (int (a + w n)))" by (intro num_of_int) simp
    then have "Fin (of_nat a) + ops_set n = Fin (of_nat (a + w n))" using Cons.prems(1) True by simp
    moreover have "foldl (\<lambda>s n. if healthy n then s + ops_set n else s) (Fin (of_nat (a + w n))) ns =
        Fin (of_nat (a + w n + sum_list (map w (filter healthy ns))))"
      by (rule Cons.IH) (use Cons.prems True in \<open>auto simp: add.assoc\<close>)
    ultimately show ?thesis using True by (simp add: add.assoc)
  qed (use Cons in simp)
qed simp

lemma counted_totals:
  assumes "\<forall>n \<in> set ns. healthy n \<longrightarrow> ops_set n = Fin (of_nat (w n))" "sum_list (map w (filter healthy ns)) \<le> 2 ^ 53"
  shows "fst (totals ns) = Fin (of_nat (sum_list (map w (filter healthy ns))))"
  using nat_counters [of ns w 0] assms by (simp add: fst_totals zero_number_def)

lemma count_difference:
  assumes "b \<le> a" "a \<le> 2 ^ 53"
  shows "Fin (of_nat a) - Fin (of_nat b) = Fin (of_nat (a - b))"
proof -
  have "int a \<le> 2 ^ 53" using assms(2) by (metis of_nat_le_iff of_nat_numeral of_nat_power)
  then have "num_of (of_int (int (a - b))) = Fin (of_int (int (a - b)))" using assms(1) by (intro num_of_int) simp
  then show ?thesis using assms(1) by (simp add: of_nat_diff)
qed

lemma derived_set_rate:
  assumes "direct_point (nullish (sn_ts d) now) d = None" "sn_nodes d = Some ns"
    and "direct_point (nullish (sn_ts d') now') d' = None" "sn_nodes d' = Some ns'"
  shows "map_option set_ops_per_sec (js_last (history (fd_store (consumeSnapshot now' d' (consumeSnapshot now d f))))) =
     Some (hook_rate (fst (totals ns')) (fst (totals ns))
       (Math_max (lit (1/1000)) (nullish (sn_ts d') now' - nullish (sn_ts d) now)))"
proof -
  obtain s where "consumeSnapshot now d f = \<lparr>fd_store = s, fd_previous = Some \<lparr>at_ts = nullish (sn_ts d) now,
      at_set = fst (totals ns), at_get = snd (totals ns)\<rparr>\<rparr>"
    using assms(1,2) by (cases "fd_previous f") (auto simp: consumeSnapshot_def Let_def case_prod_beta)
  then show ?thesis using assms(3,4)
    by (simp add: consumeSnapshot_def [of now' d'] Let_def case_prod_beta history_pushMetrics derived_point_def elapsed_def)
qed

lemma hook_rate_still:
  assumes "sane_ts t" "sane_ts u"
  shows "hook_rate (Fin a) (Fin a) (Math_max (lit (1/1000)) (t - u)) = Fin 0"
proof -
  obtain q where "0 < q" "Math_max (lit (1/1000)) (t - u) = Fin q"
    using elapsed_pos [of t "\<lparr>at_ts = u, at_set = 0, at_get = 0\<rparr>"] assms by (auto simp: elapsed_def)
  then show ?thesis by (simp add: hook_rate_def zero_number_def floor_eq_iff)
qed

section \<open>Properties\<close>

text \<open>
  C11 (equivalence). The two implementations of snapshot processing record the same metrics:
  fed the same snapshots at the same times (timestamps below 2^1000 in absolute value), from
  feeds that agree, the main store and the page stores hold the same history and remember the
  same totals, although one clamps a rate after the rounding and the other before the
  division.
\<close>

theorem snapshot_implementations_agree:
  assumes "feeds_agree f g"
    and "\<forall>(nowMs, d) \<in> set xs. sane_ts (nullish (sn_ts d) (nowMs / lit 1000))"
  shows "feeds_agree (fold (\<lambda>(nowMs, d). consumeSnapshot (nowMs / lit 1000) d) xs f)
     (fold (\<lambda>(nowMs, d). ingest nowMs d) xs g)"
  using assms
proof (induction xs arbitrary: f g)
  case (Cons x xs)
  obtain nowMs d where x: "x = (nowMs, d)" by (cases x)
  from Cons.prems have "feeds_agree (consumeSnapshot (nowMs / lit 1000) d f) (ingest nowMs d g)"
    by (intro consume_ingest_step) (auto simp: x)
  then show ?case using Cons.prems(2) by (simp add: x Cons.IH)
qed simp

definition sample_snapshot :: "rat \<Rightarrow> NodeMeta snapshot" where
  "sample_snapshot t = \<lparr>sn_nodes = Some [initial_node 1 ''n1'' 7379 True 120], sn_ts = Some (Fin t),
     sn_set_ops = None, sn_get_ops = None, sn_set_p50 = None, sn_set_p99 = None,
     sn_get_p50 = None, sn_get_p99 = None\<rparr>"

definition empty_feed :: feed where
  "empty_feed = \<lparr>fd_store = initialState, fd_previous = None\<rparr>"

definition empty_page_feed :: "NodeMeta page_feed" where
  "empty_page_feed = \<lparr>pf_cluster = pc_initial, pf_metrics = m_initial, pf_previous = None\<rparr>"

theorem snapshot_implementations_agree_witness:
  "feeds_agree
     (consumeSnapshot (Fin 0 / lit 1000) (sample_snapshot 2)
        (consumeSnapshot (Fin 0 / lit 1000) (sample_snapshot 1) empty_feed))
     (ingest (Fin 0) (sample_snapshot 2) (ingest (Fin 0) (sample_snapshot 1) empty_page_feed))"
  using snapshot_implementations_agree [of empty_feed empty_page_feed
      "[(Fin 0, sample_snapshot 1), (Fin 0, sample_snapshot 2)]"]
  by (simp add: feeds_agree_def empty_feed_def empty_page_feed_def m_initial_def initialState_def
      sample_snapshot_def sane_ts_def)

text \<open>
  C12 (bounds). Derived metrics are sane: when the healthy nodes report finite non-negative
  latencies, the recorded point has its 50th percentiles at or below its 99th percentiles, the
  floors of 0.01 and 0.02 ms hold, and neither rate is negative even if a counter went
  backwards.
\<close>

theorem derived_metrics_sane:
  assumes "direct_point (nullish (sn_ts d) now) d = None" "sn_nodes d = Some ns"
    and "fd_previous f = Some prev"
    and "\<forall>n \<in> set ns. healthy n \<longrightarrow> (\<exists>r. latency_us n = Fin r \<and> 0 \<le> r)" "length ns < 2 ^ 32"
  shows "\<exists>pt. js_last (history (fd_store (consumeSnapshot now d f))) = Some pt \<and>
     set_p50_ms pt \<le> set_p99_ms pt \<and> get_p50_ms pt \<le> get_p99_ms pt \<and>
     lit (1/100) \<le> set_p50_ms pt \<and> lit (1/100) \<le> get_p50_ms pt \<and>
     lit (2/100) \<le> set_p99_ms pt \<and> lit (2/100) \<le> get_p99_ms pt \<and>
     (set_ops_per_sec pt = NaN \<or> Fin 0 \<le> set_ops_per_sec pt) \<and>
     (get_ops_per_sec pt = NaN \<or> Fin 0 \<le> get_ops_per_sec pt)"
proof -
  let ?t = "nullish (sn_ts d) now" and ?b = "avgLatencyUs ns / lit 1000"
  let ?so = "hook_rate (fst (totals ns)) (at_set prev) (elapsed ?t prev)"
    and ?go = "hook_rate (snd (totals ns)) (at_get prev) (elapsed ?t prev)"
  have last: "js_last (history (fd_store (consumeSnapshot now d f))) =
      Some (derived_point ?t ?so ?go ?b)"
    using assms(1-3)
    by (simp add: consumeSnapshot_def Let_def history_pushMetrics split: prod.split)
  have b: "Fin 0 \<le> ?b" by (rule avgLatency_nonneg [OF assms(4,5)])
  have "set_ops_per_sec (derived_point ?t ?so ?go ?b) = ?so"
    "get_ops_per_sec (derived_point ?t ?so ?go ?b) = ?go" by (simp_all add: derived_point_def)
  then show ?thesis unfolding last
    using derived_point_percentiles [OF b] hook_rate_nonneg by (metis (no_types))
qed

theorem derived_metrics_sane_witness:
  "\<exists>pt. js_last (history (fd_store (consumeSnapshot (Fin 0) (sample_snapshot 2)
      (empty_feed\<lparr>fd_previous := Some \<lparr>at_ts = Fin 1, at_set = Fin 5, at_get = Fin 5\<rparr>\<rparr>)))) = Some pt \<and>
     set_p50_ms pt \<le> set_p99_ms pt"
  using derived_metrics_sane [of "sample_snapshot 2" "Fin 0" "[initial_node 1 ''n1'' 7379 True 120]"
      "empty_feed\<lparr>fd_previous := Some \<lparr>at_ts = Fin 1, at_set = Fin 5, at_get = Fin 5\<rparr>\<rparr>"
      "\<lparr>at_ts = Fin 1, at_set = Fin 5, at_get = Fin 5\<rparr>"]
  by (auto simp: sample_snapshot_def direct_point_def initial_node_def lit_def fl_nonneg)

text \<open>
  A snapshot that carries the metrics is recorded exactly as sent, and the
  totals remembered for later derivations are left alone; a snapshot with neither metrics nor
  nodes changes nothing; and the first snapshot to derive from records no point.
\<close>

theorem snapshot_cases:
  "(\<forall>pt. direct_point (nullish (sn_ts d) now) d = Some pt \<longrightarrow>
      history (fd_store (consumeSnapshot now d f)) = slice_last 119 (history (fd_store f)) @ [pt] \<and>
      fd_previous (consumeSnapshot now d f) = fd_previous f) \<and>
   (direct_point (nullish (sn_ts d) now) d = None \<and> sn_nodes d = None \<longrightarrow> consumeSnapshot now d f = f) \<and>
   (direct_point (nullish (sn_ts d) now) d = None \<and> fd_previous f = None \<longrightarrow>
      history (fd_store (consumeSnapshot now d f)) = history (fd_store f))"
  by (auto simp: consumeSnapshot_def Let_def history_pushMetrics split: option.split prod.split)

theorem snapshot_cases_witness:
  "history (fd_store (consumeSnapshot (Fin 0) (sample_snapshot 1) empty_feed)) = []"
  using snapshot_cases [of "sample_snapshot 1" "Fin 0" empty_feed]
  by (simp add: sample_snapshot_def direct_point_def empty_feed_def initialState_def)

text \<open>
  C39 (error). The derived rates count only the nodes that are healthy at the moment, so a node
  that comes back contributes its lifetime counter at once: whatever the cluster, when a node is
  down in one snapshot and healthy in the next one and no counter has moved, the recorded write
  rate is the node's whole counter divided by the interval, where it is zero had the node been
  healthy in both. (Counters are natural numbers with a sum of at most 2^53, times below 2^1000.)
\<close>

theorem recovery_counted_as_traffic:
  assumes "healthy n" "\<forall>m \<in> set (xs @ n # ys). healthy m \<longrightarrow> ops_set m = Fin (of_nat (w m))"
    and "sum_list (map w (filter healthy (xs @ n # ys))) \<le> 2 ^ 53"
    and "sn_nodes d = Some (xs @ n\<lparr>healthy := False\<rparr> # ys)" "sn_nodes d' = Some (xs @ n # ys)"
    and "direct_point (nullish (sn_ts d) now) d = None" "direct_point (nullish (sn_ts d') now') d' = None"
    and "sane_ts (nullish (sn_ts d) now)" "sane_ts (nullish (sn_ts d') now')"
  shows "map_option set_ops_per_sec (js_last (history (fd_store
        (consumeSnapshot now' d' (consumeSnapshot now d f))))) =
      Some (Math_max 0 (Math_round (ops_set n / Math_max (lit (1/1000)) (nullish (sn_ts d') now' - nullish (sn_ts d) now)))) \<and>
    map_option set_ops_per_sec (js_last (history (fd_store
        (consumeSnapshot now' d' (consumeSnapshot now (d\<lparr>sn_nodes := Some (xs @ n # ys)\<rparr>) f))))) = Some (Fin 0)"
proof -
  let ?W = "sum_list (map w (filter healthy (xs @ n # ys)))" and ?V = "sum_list (map w (filter healthy (xs @ ys)))"
  have wv: "?W = ?V + w n" using assms(1) by simp
  have after: "fst (totals (xs @ n # ys)) = Fin (of_nat ?W)" by (rule counted_totals [OF assms(2,3)])
  have "fst (totals (xs @ n\<lparr>healthy := False\<rparr> # ys)) = fst (totals (xs @ ys))" by (simp add: fst_totals)
  also have "\<dots> = Fin (of_nat ?V)"
    by (rule counted_totals) (use assms(2,3) wv in auto)
  finally have before: "fst (totals (xs @ n\<lparr>healthy := False\<rparr> # ys)) = Fin (of_nat ?V)" .
  have "Fin (of_nat ?W) - Fin (of_nat ?V) = ops_set n"
    using count_difference [of ?V ?W] assms(1-3) wv by simp
  then have "hook_rate (fst (totals (xs @ n # ys))) (fst (totals (xs @ n\<lparr>healthy := False\<rparr> # ys))) dt =
      Math_max 0 (Math_round (ops_set n / dt))" for dt
    unfolding after before hook_rate_def by simp
  moreover have "direct_point (nullish (sn_ts d) now) (d\<lparr>sn_nodes := Some (xs @ n # ys)\<rparr>) = None"
    using assms(6) by (simp add: direct_point_def)
  ultimately show ?thesis
    using derived_set_rate [OF assms(6,4,7,5), of f] hook_rate_still [OF assms(9,8), of "of_nat ?W"]
      derived_set_rate [of "d\<lparr>sn_nodes := Some (xs @ n # ys)\<rparr>" now "xs @ n # ys" d' now' "xs @ n # ys" f] assms(5,7) after
    by simp
qed

theorem recovery_counted_as_traffic_witness:
  "let n = (initial_node 1 ''n1'' 7379 True 120)\<lparr>ops_set := Fin 5000\<rparr> in
   map_option set_ops_per_sec (js_last (history (fd_store
     (consumeSnapshot (Fin 0) ((sample_snapshot 2)\<lparr>sn_nodes := Some [n]\<rparr>)
       (consumeSnapshot (Fin 0) ((sample_snapshot 1)\<lparr>sn_nodes := Some [n\<lparr>healthy := False\<rparr>]\<rparr>) empty_feed)))))
   = Some (Fin 5000)"
proof -
  let ?n = "(initial_node 1 ''n1'' 7379 True 120)\<lparr>ops_set := Fin 5000\<rparr>"
  let ?d = "(sample_snapshot 1)\<lparr>sn_nodes := Some [?n\<lparr>healthy := False\<rparr>]\<rparr>" and ?d' = "(sample_snapshot 2)\<lparr>sn_nodes := Some [?n]\<rparr>"
  have e: "Math_max (lit (1/1000)) (Fin 2 - Fin 1) = Fin 1" by code_simp
  have "map_option set_ops_per_sec (js_last (history (fd_store
        (consumeSnapshot (Fin 0) ?d' (consumeSnapshot (Fin 0) ?d empty_feed))))) =
      Some (Math_max 0 (Math_round (ops_set ?n / Math_max (lit (1/1000)) (nullish (sn_ts ?d') (Fin 0) - nullish (sn_ts ?d) (Fin 0)))))"
    using recovery_counted_as_traffic [of ?n "[]" "[]" "\<lambda>_. 5000" ?d ?d' "Fin 0" "Fin 0" empty_feed]
    by (simp add: initial_node_def sample_snapshot_def direct_point_def sane_ts_def)
  moreover have "nullish (sn_ts ?d') (Fin 0) = Fin 2" "nullish (sn_ts ?d) (Fin 0) = Fin 1" "ops_set ?n = Fin 5000"
    by (simp_all add: sample_snapshot_def)
  moreover have "Math_max 0 (Math_round (Fin 5000 / Fin 1)) = Fin 5000" by (simp add: zero_number_def floor_eq_iff)
  ultimately show ?thesis unfolding Let_def by (simp only: e)
qed

end
