(* ===== verification/Connection.thy ===== *)
theory Connection
  imports Ingest
begin

text \<open>
  The effect of \<open>useSimulatedMetrics\<close> (\<^verbatim>\<open>frontend/src/hooks.ts\<close>): the metrics stream over
  a WebSocket with reconnection, and the polling that replaces it while it is down. Sockets,
  timers and the mounted instances of the effect are explicit, because the handlers of an old
  socket outlive it: each instance of the effect has its own \<open>disposed\<close> flag and timers, while
  \<open>wsRef\<close> and \<open>previousRef\<close> are shared by all instances of the component. The environment
  (browser, gateway, React) chooses the next event; \<open>hook_step\<close> is \<open>None\<close> where an event
  cannot happen. The constructor \<open>new WebSocket(url)\<close> is taken to accept its argument: the
  address is the same in every call, so that a constructor that rejects it throws in the first
  run of the effect, where nothing has been set up yet.
\<close>

section \<open>State\<close>

datatype ready = CONNECTING | OPEN | CLOSING | CLOSED

record sock =
  owner :: nat
  rs :: ready

record inst =
  disposed :: bool
  reconnectTimer :: "nat option"
  pollTimer :: bool

text \<open>
  \<open>armed\<close> holds the timeouts not yet fired or cleared, with the instance whose \<open>connect\<close>
  they call; \<open>polls\<close> counts the requests to \<open>/api/cluster\<close> without an answer.
\<close>

record hook =
  feed_of :: feed
  wsRef :: "nat option"
  nsock :: nat
  socks :: "nat \<Rightarrow> sock"
  ninst :: nat
  insts :: "nat \<Rightarrow> inst"
  armed :: "(nat \<times> nat) list"
  nextTimer :: nat
  polls :: nat

datatype hook_event =
    Mount
  | Unmount
  | SockOpen nat
  | SockMessage nat number "NodeMeta snapshot option"
  | SockClose nat bool
  | TimerFire nat
  | PollTick
  | PollDone number "NodeMeta snapshot option"

section \<open>Handlers\<close>

definition set_status :: "ws_status \<Rightarrow> hook \<Rightarrow> hook" where
  "set_status st h = h\<lparr>feed_of := (feed_of h)\<lparr>fd_store := setStatus st (fd_store (feed_of h))\<rparr>\<rparr>"

definition set_rs :: "nat \<Rightarrow> ready \<Rightarrow> hook \<Rightarrow> hook" where
  "set_rs k r h = h\<lparr>socks := (socks h)(k := (socks h k)\<lparr>rs := r\<rparr>)\<rparr>"

text \<open>\<open>socket.close()\<close> starts the closing handshake, and does nothing when it has started.\<close>

definition sock_close :: "nat \<Rightarrow> hook \<Rightarrow> hook" where
  "sock_close k h = (if rs (socks h k) = CONNECTING \<or> rs (socks h k) = OPEN then set_rs k CLOSING h else h)"

definition close_ref :: "hook \<Rightarrow> hook" where
  "close_ref h = (case wsRef h of None \<Rightarrow> h | Some k \<Rightarrow> sock_close k h)"

definition connect :: "nat \<Rightarrow> hook \<Rightarrow> hook" where
  "connect i h =
     (if disposed (insts h i) then h
      else let h1 = set_status WsConnecting h; k = nsock h1 in
        h1\<lparr>nsock := Suc k, socks := (socks h1)(k := \<lparr>owner = i, rs = CONNECTING\<rparr>), wsRef := Some k\<rparr>)"

definition onopen :: "hook \<Rightarrow> hook" where
  "onopen h = set_status WsOpen h"

definition onmessage :: "number \<Rightarrow> NodeMeta snapshot option \<Rightarrow> hook \<Rightarrow> hook" where
  "onmessage now parsed h =
     (case parsed of
        Some data \<Rightarrow> h\<lparr>feed_of := consumeSnapshot now data (feed_of h)\<rparr>
      | None \<Rightarrow> h)"

definition onerror :: "hook \<Rightarrow> hook" where
  "onerror h = close_ref h"

text \<open>\<open>onclose\<close> of a socket that instance \<open>i\<close> opened.\<close>

definition onclose :: "nat \<Rightarrow> hook \<Rightarrow> hook" where
  "onclose i h =
     (if disposed (insts h i) then h
      else let h1 = set_status WsClosed h; t = nextTimer h1 in
        h1\<lparr>armed := armed h1 @ [(t, i)], nextTimer := Suc t,
           insts := (insts h1)(i := (insts h1 i)\<lparr>reconnectTimer := Some t\<rparr>)\<rparr>)"

definition pollCluster :: "hook \<Rightarrow> hook" where
  "pollCluster h = h\<lparr>polls := Suc (polls h)\<rparr>"

text \<open>The answer of a poll: nothing for a failed or unparsable one.\<close>

definition poll_answer :: "number \<Rightarrow> NodeMeta snapshot option \<Rightarrow> hook \<Rightarrow> hook" where
  "poll_answer now parsed h = onmessage now parsed (h\<lparr>polls := polls h - 1\<rparr>)"

definition poll_tick :: "hook \<Rightarrow> hook" where
  "poll_tick h =
     (case wsRef h of
        Some k \<Rightarrow> if rs (socks h k) \<noteq> OPEN then pollCluster h else h
      | None \<Rightarrow> pollCluster h)"

text \<open>Running the effect, and its cleanup.\<close>

definition mount :: "hook \<Rightarrow> hook" where
  "mount h =
     (let i = ninst h;
          h1 = h\<lparr>ninst := Suc i, insts := (insts h)(i := \<lparr>disposed = False, reconnectTimer = None,
            pollTimer = False\<rparr>)\<rparr>;
          h2 = connect i (pollCluster h1) in
      h2\<lparr>insts := (insts h2)(i := (insts h2 i)\<lparr>pollTimer := True\<rparr>)\<rparr>)"

definition unmount :: "nat \<Rightarrow> hook \<Rightarrow> hook" where
  "unmount i h =
     (let h1 = h\<lparr>insts := (insts h)(i := (insts h i)\<lparr>disposed := True\<rparr>)\<rparr>;
          h2 = (case reconnectTimer (insts h1 i) of
                  Some t \<Rightarrow> h1\<lparr>armed := filter (\<lambda>(u, _). u \<noteq> t) (armed h1)\<rparr>
                | None \<Rightarrow> h1);
          h3 = h2\<lparr>insts := (insts h2)(i := (insts h2 i)\<lparr>pollTimer := False\<rparr>)\<rparr> in
      close_ref h3)"

section \<open>Steps\<close>

text \<open>React runs the effect again only after its cleanup.\<close>

definition live :: "hook \<Rightarrow> bool" where
  "live h \<longleftrightarrow> 0 < ninst h \<and> \<not> disposed (insts h (ninst h - 1))"

fun hook_step :: "hook \<Rightarrow> hook_event \<Rightarrow> hook option" where
  "hook_step h Mount = (if live h then None else Some (mount h))"
| "hook_step h Unmount = (if live h then Some (unmount (ninst h - 1) h) else None)"
| "hook_step h (SockOpen k) =
     (if k < nsock h \<and> rs (socks h k) = CONNECTING then Some (onopen (set_rs k OPEN h)) else None)"
| "hook_step h (SockMessage k now parsed) =
     (if k < nsock h \<and> rs (socks h k) = OPEN then Some (onmessage now parsed h) else None)"
| "hook_step h (SockClose k failed) =
     (if k < nsock h \<and> rs (socks h k) \<noteq> CLOSED then
        let h1 = set_rs k CLOSED h; h2 = (if failed then onerror h1 else h1)
        in Some (onclose (owner (socks h2 k)) h2)
      else None)"
| "hook_step h (TimerFire t) =
     (case map_of (armed h) t of
        None \<Rightarrow> None
      | Some i \<Rightarrow> Some (connect i (h\<lparr>armed := filter (\<lambda>(u, _). u \<noteq> t) (armed h)\<rparr>)))"
| "hook_step h PollTick =
     (if live h \<and> pollTimer (insts h (ninst h - 1)) then Some (poll_tick h) else None)"
| "hook_step h (PollDone now parsed) = (if 0 < polls h then Some (poll_answer now parsed h) else None)"

fun hook_run :: "hook \<Rightarrow> hook_event list \<Rightarrow> hook option" where
  "hook_run h [] = Some h"
| "hook_run h (e # es) = Option.bind (hook_step h e) (\<lambda>h'. hook_run h' es)"

definition hook_init :: hook where
  "hook_init = \<lparr>feed_of = \<lparr>fd_store = initialState, fd_previous = None\<rparr>, wsRef = None, nsock = 0,
     socks = (\<lambda>_. \<lparr>owner = 0, rs = CLOSED\<rparr>), ninst = 0,
     insts = (\<lambda>_. \<lparr>disposed = True, reconnectTimer = None, pollTimer = False\<rparr>),
     armed = [], nextTimer = 1, polls = 0\<rparr>"

section \<open>The invariant\<close>

abbreviation cur :: "hook \<Rightarrow> nat" where
  "cur h \<equiv> ninst h - 1"

abbreviation newest :: "hook \<Rightarrow> nat" where
  "newest h \<equiv> nsock h - 1"

abbreviation shown :: "hook \<Rightarrow> ws_status" where
  "shown h \<equiv> wsStatus (fd_store (feed_of h))"

text \<open>
  \<open>refs_ok\<close>: \<open>wsRef\<close> is the newest socket, every other one is closing or closed, and owners
  exist. \<open>disposed_ok\<close>: only the newest instance can be live. \<open>live_ok\<close>: a live instance has
  either a socket that is not closed or one armed reconnection, never both and never neither,
  and the status shown to the user tells which.
\<close>

definition refs_ok :: "hook \<Rightarrow> bool" where
  "refs_ok h \<longleftrightarrow> wsRef h = (if nsock h = 0 then None else Some (newest h)) \<and>
     (\<forall>k. k < nsock h \<longrightarrow> owner (socks h k) < ninst h) \<and>
     (\<forall>k. k < nsock h \<longrightarrow> k = newest h \<or> rs (socks h k) = CLOSING \<or> rs (socks h k) = CLOSED)"

definition disposed_ok :: "hook \<Rightarrow> bool" where
  "disposed_ok h \<longleftrightarrow> (\<forall>i. i < ninst h \<longrightarrow> i = cur h \<or> disposed (insts h i))"

definition live_ok :: "hook \<Rightarrow> bool" where
  "live_ok h \<longleftrightarrow> (live h \<longrightarrow> 0 < nsock h \<and> owner (socks h (newest h)) = cur h \<and>
     (\<forall>k. k < nsock h \<longrightarrow> owner (socks h k) = cur h \<longrightarrow> k = newest h \<or> rs (socks h k) = CLOSED) \<and>
     pollTimer (insts h (cur h)) \<and>
     (case rs (socks h (newest h)) of
        CLOSED \<Rightarrow> shown h = WsClosed \<and>
          (\<exists>t. armed h = [(t, cur h)] \<and> reconnectTimer (insts h (cur h)) = Some t)
      | CONNECTING \<Rightarrow> armed h = [] \<and> shown h = WsConnecting
      | OPEN \<Rightarrow> armed h = [] \<and> shown h = WsOpen
      | CLOSING \<Rightarrow> armed h = [] \<and> shown h \<noteq> WsClosed))"

definition idle_ok :: "hook \<Rightarrow> bool" where
  "idle_ok h \<longleftrightarrow> (\<not> live h \<longrightarrow> armed h = [] \<and>
     (\<forall>k. k < nsock h \<longrightarrow> rs (socks h k) = CLOSING \<or> rs (socks h k) = CLOSED))"

definition hook_inv :: "hook \<Rightarrow> bool" where
  "hook_inv h \<longleftrightarrow> refs_ok h \<and> disposed_ok h \<and> live_ok h \<and> idle_ok h"

section \<open>The handlers keep the invariant\<close>

lemma status_fields [simp]:
  "wsRef (set_status st h) = wsRef h" "nsock (set_status st h) = nsock h" "socks (set_status st h) = socks h"
  "ninst (set_status st h) = ninst h" "insts (set_status st h) = insts h" "armed (set_status st h) = armed h"
  "nextTimer (set_status st h) = nextTimer h" "polls (set_status st h) = polls h" "shown (set_status st h) = st"
  "wsRef (set_rs k r h) = wsRef h" "nsock (set_rs k r h) = nsock h"
  "ninst (set_rs k r h) = ninst h" "insts (set_rs k r h) = insts h" "armed (set_rs k r h) = armed h"
  "nextTimer (set_rs k r h) = nextTimer h" "polls (set_rs k r h) = polls h" "feed_of (set_rs k r h) = feed_of h"
  "owner (socks (set_rs k r h) j) = owner (socks h j)"
  "rs (socks (set_rs k r h) j) = (if j = k then r else rs (socks h j))"
  by (simp_all add: set_status_def set_rs_def)

lemma close_fields [simp]:
  "wsRef (sock_close k h) = wsRef h" "nsock (sock_close k h) = nsock h"
  "ninst (sock_close k h) = ninst h" "insts (sock_close k h) = insts h" "armed (sock_close k h) = armed h"
  "nextTimer (sock_close k h) = nextTimer h" "polls (sock_close k h) = polls h" "feed_of (sock_close k h) = feed_of h"
  "owner (socks (sock_close k h) j) = owner (socks h j)"
  "rs (socks (sock_close k h) j) = (if j = k \<and> (rs (socks h k) = CONNECTING \<or> rs (socks h k) = OPEN) then CLOSING else rs (socks h j))"
  by (simp_all add: sock_close_def)

lemma live_fields [simp]: "live (set_status st h) = live h" "live (set_rs k r h) = live h" "live (sock_close k h) = live h"
  by (simp_all add: live_def)

lemma shown_onmessage [simp]:
  "wsStatus (fd_store (consumeSnapshot now d f)) = wsStatus (fd_store f)"
  by (simp add: consumeSnapshot_def Let_def split: option.split prod.split)

lemmas inv_defs = hook_inv_def refs_ok_def disposed_ok_def live_ok_def idle_ok_def

lemma onmessage_inv: "hook_inv h \<Longrightarrow> hook_inv (onmessage now p h)"
  by (cases p) (simp_all add: inv_defs onmessage_def live_def cong: ready.case_cong)

lemma active_sock:
  assumes "hook_inv h" "k < nsock h" "rs (socks h k) = CONNECTING \<or> rs (socks h k) = OPEN"
  shows "live h \<and> k = newest h"
proof -
  have "k = newest h" using assms by (auto simp: hook_inv_def refs_ok_def)
  moreover have "live h" using assms by (auto simp: hook_inv_def idle_ok_def)
  ultimately show ?thesis by simp
qed

lemma connect_eq:
  "\<not> disposed (insts h i) \<Longrightarrow> connect i h = (set_status WsConnecting h)
     \<lparr>nsock := Suc (nsock h), socks := (socks h)(nsock h := \<lparr>owner = i, rs = CONNECTING\<rparr>), wsRef := Some (nsock h)\<rparr>"
  by (simp add: connect_def Let_def)

lemma mount_inv:
  assumes "hook_inv h" "\<not> live h"
  shows "hook_inv (mount h)"
proof -
  have "armed h = []" "\<forall>k<nsock h. rs (socks h k) = CLOSING \<or> rs (socks h k) = CLOSED"
    "\<forall>k<nsock h. owner (socks h k) < ninst h" "\<forall>i<ninst h. disposed (insts h i)"
    using assms by (auto simp: inv_defs live_def)
  then show ?thesis
    by (auto simp: inv_defs mount_def connect_eq pollCluster_def Let_def live_def less_Suc_eq)
qed

lemma open_inv:
  assumes "hook_inv h" "k < nsock h" "rs (socks h k) = CONNECTING"
  shows "hook_inv (onopen (set_rs k OPEN h))"
proof -
  have "live h" "k = newest h" using active_sock assms by auto
  with assms show ?thesis by (auto simp: inv_defs onopen_def)
qed

lemma unmount_fields:
  assumes "wsRef h = Some n"
  shows "wsRef (unmount i h) = Some n" "nsock (unmount i h) = nsock h" "ninst (unmount i h) = ninst h"
    "insts (unmount i h) = (insts h)(i := (insts h i)\<lparr>disposed := True, pollTimer := False\<rparr>)"
    "armed (unmount i h) = (case reconnectTimer (insts h i) of
        Some t \<Rightarrow> filter (\<lambda>(u, _). u \<noteq> t) (armed h) | None \<Rightarrow> armed h)"
    "owner (socks (unmount i h) j) = owner (socks h j)"
    "rs (socks (unmount i h) j) =
      (if j = n \<and> (rs (socks h n) = CONNECTING \<or> rs (socks h n) = OPEN) then CLOSING else rs (socks h j))"
    "feed_of (unmount i h) = feed_of h"
  using assms
  by (cases "reconnectTimer (insts h i)"; auto simp: unmount_def Let_def close_ref_def)+

lemma unmount_inv:
  assumes "hook_inv h" "live h"
  shows "hook_inv (unmount (cur h) h)"
proof -
  have n: "wsRef h = Some (newest h)" "0 < nsock h" using assms by (auto simp: inv_defs)
  note f = unmount_fields [OF n(1)]
  have "armed (unmount (cur h) h) = []"
    using assms by (auto simp: f hook_inv_def live_ok_def split: ready.splits option.splits)
  moreover have "\<not> live (unmount (cur h) h)" by (simp add: f live_def)
  moreover have "refs_ok (unmount (cur h) h)"
    using assms(1) n(2) by (simp add: refs_ok_def hook_inv_def f)
  moreover have "disposed_ok (unmount (cur h) h)"
    using assms(1) by (auto simp: disposed_ok_def hook_inv_def f)
  moreover have "rs (socks (unmount (cur h) h) k) = CLOSING \<or> rs (socks (unmount (cur h) h) k) = CLOSED"
    if "k < nsock h" for k
    using active_sock [OF assms(1) that] by (cases "rs (socks h k)") (auto simp: f)
  ultimately show ?thesis by (simp add: hook_inv_def live_ok_def idle_ok_def f)
qed

lemma timer_inv:
  assumes "hook_inv h" "map_of (armed h) t = Some i"
  shows "hook_inv (connect i (h\<lparr>armed := filter (\<lambda>(u, _). u \<noteq> t) (armed h)\<rparr>))"
proof -
  have lv: "live h" using assms by (auto simp: hook_inv_def idle_ok_def)
  with assms have a: "armed h = [(t, cur h)]" "i = cur h" "rs (socks h (newest h)) = CLOSED"
    by (auto simp: hook_inv_def live_ok_def split: ready.splits if_splits)
  have "\<forall>k<nsock h. rs (socks h k) = CLOSING \<or> rs (socks h k) = CLOSED"
    "\<forall>k<nsock h. owner (socks h k) = cur h \<longrightarrow> rs (socks h k) = CLOSED"
    "\<forall>k<nsock h. owner (socks h k) < ninst h" "0 < nsock h"
    "\<forall>i<ninst h. i = cur h \<or> disposed (insts h i)" "pollTimer (insts h (cur h))"
    "\<not> disposed (insts h (cur h))" "0 < ninst h"
    using assms(1) lv a(3) by (auto simp: inv_defs live_def)
  then show ?thesis using a(1,2)
    by (auto simp: inv_defs connect_eq Let_def live_def less_Suc_eq)
qed

lemma close_newest_inv:
  assumes "hook_inv h" "0 < nsock h" "rs (socks h (newest h)) \<noteq> CLOSED"
  shows "hook_inv (onclose (owner (socks h (newest h))) (set_rs (newest h) CLOSED h))"
proof (cases "disposed (insts h (owner (socks h (newest h))))")
  case True
  then have "\<not> live h" using assms(1) by (auto simp: hook_inv_def live_ok_def live_def)
  with True assms show ?thesis by (auto simp: inv_defs onclose_def)
next
  case False
  have o: "owner (socks h (newest h)) < ninst h" using assms by (simp add: hook_inv_def refs_ok_def)
  with False assms(1) have c: "owner (socks h (newest h)) = cur h"
    by (auto simp: hook_inv_def disposed_ok_def)
  with False o have lv: "live h" by (simp add: live_def)
  then have "armed h = []" using assms by (auto simp: hook_inv_def live_ok_def split: ready.splits)
  moreover have "pollTimer (insts h (cur h))" using assms lv by (simp add: hook_inv_def live_ok_def)
  ultimately show ?thesis
    using assms False c lv
    by (auto simp: inv_defs onclose_def Let_def live_def)
qed

lemma close_ref_fields [simp]:
  "insts (close_ref h) = insts h" "owner (socks (close_ref h) k) = owner (socks h k)"
  by (simp_all add: close_ref_def split: option.split)

lemma close_ref_inv: "hook_inv h \<Longrightarrow> hook_inv (close_ref h)"
proof -
  assume h: "hook_inv h"
  show ?thesis
  proof (cases "nsock h = 0")
    case True
    with h show ?thesis by (simp add: close_ref_def hook_inv_def refs_ok_def)
  next
    case False
    with h have "wsRef h = Some (newest h)" by (simp add: hook_inv_def refs_ok_def)
    with h False show ?thesis
      by (auto simp: close_ref_def inv_defs split: ready.splits)
  qed
qed

lemma stale_close_inv:
  assumes "hook_inv h" "k < nsock h" "k \<noteq> newest h"
  shows "hook_inv (set_rs k CLOSED h)"
  using assms by (auto simp: inv_defs split: ready.splits)

lemma hook_step_inv:
  assumes "hook_inv h" "hook_step h e = Some h'"
  shows "hook_inv h'"
proof (cases e)
  case (SockClose k failed)
  with assms(2) have k: "k < nsock h" "rs (socks h k) \<noteq> CLOSED" by (auto split: if_splits)
  show ?thesis
  proof (cases "k = newest h")
    case True
    with assms(1) k have "wsRef h = Some k" by (auto simp: hook_inv_def refs_ok_def)
    then have "onerror (set_rs k CLOSED h) = set_rs k CLOSED h"
      by (simp add: onerror_def close_ref_def sock_close_def)
    with assms True k show ?thesis
      using close_newest_inv [of h] by (simp add: SockClose Let_def split: if_splits)
  next
    case False
    have "disposed (insts h (owner (socks h k)))"
      using assms(1) k False by (auto simp: inv_defs live_def)
    moreover have "hook_inv (set_rs k CLOSED h)" by (rule stale_close_inv [OF assms(1) k(1) False])
    ultimately show ?thesis
      using assms(2) k close_ref_inv
      by (auto simp: SockClose Let_def onclose_def onerror_def split: if_splits)
  qed
next
  case (PollDone now parsed)
  have "hook_inv (h\<lparr>polls := polls h - 1\<rparr>)"
    using assms(1) by (simp add: inv_defs live_def cong: ready.case_cong)
  then have "hook_inv (poll_answer now parsed h)" unfolding poll_answer_def by (rule onmessage_inv)
  with assms(2) PollDone show ?thesis by (simp split: if_splits)
next
  case PollTick
  have "hook_inv (pollCluster h)"
    using assms(1) by (simp add: pollCluster_def inv_defs live_def cong: ready.case_cong)
  with assms PollTick show ?thesis by (auto simp: poll_tick_def split: if_splits option.splits)
qed (use assms in \<open>auto simp: mount_inv unmount_inv [simplified] open_inv onmessage_inv timer_inv
       split: if_splits option.splits\<close>)

lemma hook_run_inv: "hook_inv h \<Longrightarrow> hook_run h es = Some h' \<Longrightarrow> hook_inv h'"
  by (induction es arbitrary: h) (auto simp: bind_eq_Some_conv dest: hook_step_inv)

lemma hook_init_inv: "hook_inv hook_init"
  by (simp add: inv_defs hook_init_def live_def)

lemma reachable_inv: "hook_run hook_init es = Some h \<Longrightarrow> hook_inv h"
  using hook_run_inv [OF hook_init_inv] by blast

section \<open>Properties\<close>

text \<open>
  C10 (invariant). In every state the hook can reach, a mounted instance holds exactly one of:
  a socket that is not closed, or an armed reconnection. It never loses its connection for
  good and never opens a second one next to the first.
\<close>

theorem one_connection_or_timer:
  assumes "hook_run hook_init es = Some h" "live h"
  shows "length (armed h) +
     card {k. k < nsock h \<and> owner (socks h k) = cur h \<and> rs (socks h k) \<noteq> CLOSED} = 1"
proof -
  let ?S = "{k. k < nsock h \<and> owner (socks h k) = cur h \<and> rs (socks h k) \<noteq> CLOSED}"
  have inv: "live_ok h" using reachable_inv [OF assms(1)] by (simp add: hook_inv_def)
  then have "?S = (if rs (socks h (newest h)) = CLOSED then {} else {newest h})"
    using assms(2) by (auto simp: live_ok_def)
  moreover have "length (armed h) = (if rs (socks h (newest h)) = CLOSED then 1 else 0)"
    using inv assms(2) by (auto simp: live_ok_def split: ready.splits)
  ultimately show ?thesis by simp
qed

theorem one_connection_or_timer_witness:
  "\<exists>h. hook_run hook_init [Mount, SockOpen 0, SockClose 0 False] = Some h \<and> live h \<and>
     length (armed h) + card {k. k < nsock h \<and> owner (socks h k) = cur h \<and> rs (socks h k) \<noteq> CLOSED} = 1"
proof -
  obtain h where h: "hook_run hook_init [Mount, SockOpen 0, SockClose 0 False] = Some h" "live h"
    by (simp add: hook_init_def live_def mount_def connect_def pollCluster_def Let_def onopen_def
        onclose_def set_status_def set_rs_def)
  then show ?thesis using one_connection_or_timer [OF h] by blast
qed



text \<open>
  C16 (safety). The status the console shows is true while the effect is mounted: it says
  closed exactly when a reconnection is pending, an open socket is shown as open, and a
  connecting one as connecting.
\<close>

theorem shown_status_is_true:
  assumes "hook_run hook_init es = Some h" "live h"
  shows "(shown h = WsClosed \<longleftrightarrow> armed h \<noteq> []) \<and>
     (rs (socks h (newest h)) = OPEN \<longrightarrow> shown h = WsOpen) \<and>
     (rs (socks h (newest h)) = CONNECTING \<longrightarrow> shown h = WsConnecting)"
  using reachable_inv [OF assms(1)] assms(2)
  by (auto simp: hook_inv_def live_ok_def split: ready.splits)

theorem shown_status_is_true_witness:
  "\<exists>h. hook_run hook_init [Mount, SockOpen 0] = Some h \<and> shown h = WsOpen"
proof -
  obtain h where h: "hook_run hook_init [Mount, SockOpen 0] = Some h" "live h"
      "rs (socks h (newest h)) = OPEN"
    by (simp add: hook_init_def live_def mount_def connect_def pollCluster_def Let_def onopen_def
        set_status_def set_rs_def)
  then show ?thesis using shown_status_is_true [OF h(1,2)] by blast
qed

text \<open>
  C15 (liveness). A closed stream can always come back: in every reachable mounted state that
  shows closed, the armed timeout can fire, and then a fresh socket is connecting as
  \<open>wsRef\<close>; when the browser reports it open, the console shows open.
\<close>

theorem closed_stream_reconnects:
  assumes "hook_run hook_init es = Some h" "live h" "shown h = WsClosed"
  shows "\<exists>t h1 h2. hook_step h (TimerFire t) = Some h1 \<and> shown h1 = WsConnecting \<and>
     wsRef h1 = Some (nsock h) \<and> hook_step h1 (SockOpen (nsock h)) = Some h2 \<and> shown h2 = WsOpen"
proof -
  have inv: "hook_inv h" by (rule reachable_inv [OF assms(1)])
  then obtain t where t: "armed h = [(t, cur h)]"
    using assms(2,3) by (auto simp: hook_inv_def live_ok_def split: ready.splits)
  define h1 where "h1 = connect (cur h) (h\<lparr>armed := []\<rparr>)"
  have nd: "\<not> disposed (insts h (cur h))" using assms(2) by (simp add: live_def)
  have "hook_step h (TimerFire t) = Some h1" by (simp add: t h1_def)
  moreover have "shown h1 = WsConnecting" "wsRef h1 = Some (nsock h)" "nsock h1 = Suc (nsock h)"
    "rs (socks h1 (nsock h)) = CONNECTING"
    using nd by (simp_all add: h1_def connect_eq)
  moreover from this have "hook_step h1 (SockOpen (nsock h)) = Some (onopen (set_rs (nsock h) OPEN h1))"
    by simp
  moreover have "shown (onopen (set_rs (nsock h) OPEN h1)) = WsOpen" by (simp add: onopen_def)
  ultimately show ?thesis by blast
qed

theorem closed_stream_reconnects_witness:
  "\<exists>h t h1. hook_run hook_init [Mount, SockClose 0 True] = Some h \<and>
     hook_step h (TimerFire t) = Some h1 \<and> shown h1 = WsConnecting"
proof -
  obtain h where h: "hook_run hook_init [Mount, SockClose 0 True] = Some h" "live h" "shown h = WsClosed"
    by (simp add: hook_init_def live_def mount_def connect_def pollCluster_def Let_def onclose_def
        onerror_def close_ref_def sock_close_def set_status_def set_rs_def)
  then show ?thesis using closed_stream_reconnects [OF h] by blast
qed

text \<open>
  C18 (functional). Polling replaces the stream exactly while it is down: while mounted, every
  tick of the interval can happen, and it issues a request to \<open>/api/cluster\<close> if and only if
  the current socket is not open.
\<close>

theorem polling_covers_outages:
  assumes "hook_run hook_init es = Some h" "live h"
  shows "hook_step h PollTick =
     Some (if rs (socks h (newest h)) = OPEN then h else h\<lparr>polls := Suc (polls h)\<rparr>)"
  using reachable_inv [OF assms(1)] assms(2)
  by (auto simp: hook_inv_def live_ok_def refs_ok_def poll_tick_def pollCluster_def)

theorem polling_covers_outages_witness:
  "\<exists>h. hook_run hook_init [Mount] = Some h \<and> hook_step h PollTick = Some (h\<lparr>polls := 2\<rparr>)"
proof -
  obtain h where h: "hook_run hook_init [Mount] = Some h" "live h" "rs (socks h (newest h)) = CONNECTING"
      "polls h = 1"
    by (simp add: hook_init_def live_def mount_def connect_def pollCluster_def Let_def set_status_def)
  then show ?thesis using polling_covers_outages [OF h(1,2)] by (simp add: numeral_2_eq_2)
qed

text \<open>
  C38 (error). The error handler of a socket closes whatever \<open>wsRef\<close> holds at the time, not its
  own socket: when a socket left over from a disposed instance fails, the open stream of the
  mounted instance is closed with it. A remount of the effect, as React's strict mode does
  (\<^verbatim>\<open>frontend/src/main.tsx\<close>), is enough to get there.
\<close>

theorem stale_error_closes_current_stream:
  assumes "hook_run hook_init es = Some h"
    and "k < nsock h" "k \<noteq> newest h" "rs (socks h k) \<noteq> CLOSED" "rs (socks h (newest h)) = OPEN"
  shows "\<exists>h'. hook_step h (SockClose k True) = Some h' \<and> rs (socks h' (newest h)) = CLOSING"
proof -
  have inv: "hook_inv h" by (rule reachable_inv [OF assms(1)])
  have "wsRef h = Some (newest h)" using inv assms(2) by (simp add: hook_inv_def refs_ok_def)
  then have "rs (socks (onerror (set_rs k CLOSED h)) (newest h)) = CLOSING"
    using assms(3,5) by (simp add: onerror_def close_ref_def)
  then show ?thesis using assms(2,4) by (simp add: onclose_def Let_def)
qed

theorem stale_error_closes_current_stream_witness:
  "\<exists>h h'. hook_run hook_init [Mount, Unmount, Mount, SockOpen 1] = Some h \<and>
     rs (socks h 1) = OPEN \<and> hook_step h (SockClose 0 True) = Some h' \<and> rs (socks h' 1) = CLOSING"
proof -
  obtain h where h: "hook_run hook_init [Mount, Unmount, Mount, SockOpen 1] = Some h" "nsock h = 2"
      "rs (socks h 0) = CLOSING" "rs (socks h 1) = OPEN"
    by (simp add: hook_init_def live_def mount_def unmount_def connect_def pollCluster_def Let_def
        onopen_def close_ref_def sock_close_def set_status_def set_rs_def)
  then show ?thesis using stale_error_closes_current_stream [OF h(1), of 0] by auto
qed

end
