(* ===== verification/ClusterView.thy ===== *)
theory ClusterView
  imports Ingest
begin

text \<open>
  What the views compute from the store before they render: leader, quorum and the figures of
  \<open>DashboardView\<close> and \<open>ArchitectureView\<close> in \<^verbatim>\<open>frontend/src/App.tsx\<close>, and of the pages
  \<^verbatim>\<open>pages/Dashboard.tsx\<close>, \<^verbatim>\<open>components/NodeCard.tsx\<close>, \<^verbatim>\<open>components/LagChart.tsx\<close> and
  \<^verbatim>\<open>components/OpsChart.tsx\<close>. The platform's locale-dependent formatting is the parameter
  \<open>loc\<close> (numbers) and \<open>clock\<close> (times of day). Markup and styling are not modelled.
\<close>

section \<open>Leader and quorum\<close>

definition healthyNodes :: "'a NodeMeta_scheme list \<Rightarrow> 'a NodeMeta_scheme list" where
  "healthyNodes ns = filter healthy ns"

definition leader :: "'a NodeMeta_scheme list \<Rightarrow> 'a NodeMeta_scheme option" where
  "leader ns = List.find (\<lambda>n. is_leader n \<and> healthy n) ns"

definition quorum :: "'a NodeMeta_scheme list \<Rightarrow> nat" where
  "quorum ns = length ns div 2 + 1"

definition quorumReached :: "'a NodeMeta_scheme list \<Rightarrow> bool" where
  "quorumReached ns = (quorum ns \<le> length (healthyNodes ns))"

definition replica_role :: "'a NodeMeta_scheme \<Rightarrow> string" where
  "replica_role n = (if is_leader n then ''leader'' else if healthy n then ''follower'' else ''offline'')"

section \<open>DashboardView\<close>

definition sum_by :: "('n \<Rightarrow> number) \<Rightarrow> 'n list \<Rightarrow> number" where
  "sum_by f ns = foldl (\<lambda>a n. a + f n) 0 ns"

definition throughput :: "MetricsPoint list \<Rightarrow> number" where
  "throughput hist = (let latest = js_last hist in
     nullish (map_option set_ops_per_sec latest) 0 + nullish (map_option get_ops_per_sec latest) 0)"

record card =
  card_label :: string
  card_value :: string
  card_sub :: string

definition dashboard_cards :: "(number \<Rightarrow> string) \<Rightarrow> NodeMeta list \<Rightarrow> MetricsPoint list \<Rightarrow> card list" where
  "dashboard_cards loc ns hist =
    [\<lparr>card_label = ''Throughput'', card_value = loc (throughput hist), card_sub = ''Ops per second''\<rparr>,
     \<lparr>card_label = ''Latency'',
      card_value = num_to_string (Math_round (sum_by latency_us ns / Math_max (lit 1) (num_nat (length ns)))),
      card_sub = ''Microseconds mean''\<rparr>,
     \<lparr>card_label = ''Storage'', card_value = loc (sum_by key_count ns), card_sub = ''Total active keys''\<rparr>,
     \<lparr>card_label = ''Nodes'',
      card_value = show_nat (length (filter healthy ns)) @ ''/'' @ show_nat (max (length ns) 3),
      card_sub = ''Cluster operational''\<rparr>]"

record chart_row =
  row_time :: string
  row_SET :: number
  row_GET :: number

definition chart_data :: "(number \<Rightarrow> string) \<Rightarrow> MetricsPoint list \<Rightarrow> chart_row list" where
  "chart_data clock hist = map (\<lambda>pt. \<lparr>row_time = clock (ts pt * lit 1000),
     row_SET = set_ops_per_sec pt, row_GET = get_ops_per_sec pt\<rparr>) hist"

section \<open>The page set\<close>

text \<open>\<^verbatim>\<open>components/OpsChart.tsx\<close>: the chart data and the axis labels.\<close>

definition ops_chart_data :: "(number \<Rightarrow> string) \<Rightarrow> MetricsPoint list \<Rightarrow> chart_row list" where
  "ops_chart_data clock hist = map (\<lambda>pt. \<lparr>row_time = clock (ts pt * lit 1000),
     row_SET = set_ops_per_sec pt, row_GET = get_ops_per_sec pt\<rparr>) hist"

definition ops_tick :: "number \<Rightarrow> string" where
  "ops_tick v = (if lit 1000 \<le> v then toFixed 0 (v / lit 1000) @ ''K'' else num_to_string v)"

text \<open>\<^verbatim>\<open>components/LagChart.tsx\<close>: \<open>Number(x.toFixed(1))\<close> reads the printed decimal back.\<close>

fun fixed_number :: "nat \<Rightarrow> number \<Rightarrow> number" where
  "fixed_number f (Fin r) =
     (if 10 ^ 21 \<le> \<bar>r\<bar> then Fin r
      else if r < 0 then num_of (- (of_int \<lfloor>- r * 10 ^ f + 1/2\<rfloor> / 10 ^ f))
      else num_of (of_int \<lfloor>r * 10 ^ f + 1/2\<rfloor> / 10 ^ f))"
| "fixed_number f x = x"

record lag_row =
  lag_name :: string
  lag_lag :: number
  lag_healthy :: bool

definition lag_data :: "'a NodeMeta_scheme list \<Rightarrow> lag_row list" where
  "lag_data ns = map (\<lambda>n. \<lparr>lag_name = ''N'' @ show_int (node_id n),
     lag_lag = fixed_number 1 (lag_ms n), lag_healthy = healthy n\<rparr>) ns"

text \<open>\<^verbatim>\<open>pages/Dashboard.tsx\<close>: the header chips and the four figures.\<close>

definition page_leader :: "'a NodeMeta_scheme list \<Rightarrow> 'a NodeMeta_scheme option" where
  "page_leader ns = List.find is_leader ns"

definition page_avgLatencyUs :: "'a NodeMeta_scheme list \<Rightarrow> number" where
  "page_avgLatencyUs ns = (let hs = filter healthy ns in
     if length hs \<noteq> 0 then sum_by latency_us hs / num_nat (length hs) else 0)"

datatype tone = ToneOk | ToneInfo | ToneDanger | ToneNeutral

record chip =
  chip_label :: string
  chip_value :: string
  chip_tone :: tone

definition dashboard_chips ::
  "(number \<Rightarrow> string) \<Rightarrow> (number \<Rightarrow> string) \<Rightarrow> 'a NodeMeta_scheme PageClusterState \<Rightarrow> MetricsPoint list \<Rightarrow> chip list"
where
  "dashboard_chips loc clock s hist =
    (let ns = pc_nodes s; hs = filter healthy ns in
    [\<lparr>chip_label = ''cluster'',
      chip_value = show_nat (length hs) @ ''/'' @ show_nat (max (length ns) 3) @ '' healthy'',
      chip_tone = (if length hs = 0 then ToneDanger else ToneOk)\<rparr>,
     \<lparr>chip_label = ''leader'',
      chip_value = (case page_leader ns of Some l \<Rightarrow> ''node '' @ show_int (node_id l) | None \<Rightarrow> ''election''),
      chip_tone = ToneInfo\<rparr>,
     \<lparr>chip_label = ''throughput'',
      chip_value = (case js_last hist of
        Some l \<Rightarrow> loc (set_ops_per_sec l + get_ops_per_sec l) @ '' ops/s'' | None \<Rightarrow> ''warming up''),
      chip_tone = ToneNeutral\<rparr>,
     \<lparr>chip_label = ''last update'',
      chip_value = (case pc_lastUpdated s of
        Some t \<Rightarrow> if t \<noteq> NaN \<and> t \<noteq> Fin 0 then clock t else ''pending'' | None \<Rightarrow> ''pending''),
      chip_tone = (if pc_wsStatus s = WsOpen then ToneOk else ToneNeutral)\<rparr>])"

definition dashboard_stats :: "(number \<Rightarrow> string) \<Rightarrow> 'a NodeMeta_scheme list \<Rightarrow> MetricsPoint list \<Rightarrow> (string \<times> string) list"
where
  "dashboard_stats loc ns hist =
    [(''Total Keys'', loc (sum_by key_count (filter healthy ns))),
     (''Avg Latency'', toFixed 0 (page_avgLatencyUs ns) @ '' us''),
     (''SET Ops/s'', case js_last hist of Some l \<Rightarrow> loc (set_ops_per_sec l) | None \<Rightarrow> ''0''),
     (''GET Ops/s'', case js_last hist of Some l \<Rightarrow> loc (get_ops_per_sec l) | None \<Rightarrow> ''0'')]"

text \<open>
  \<^verbatim>\<open>components/NodeCard.tsx\<close>: the figures of a card, its buttons, and its two requests,
  which hold a pending flag between their start and their end, however they end.
\<close>

record node_card =
  pendingKill :: bool
  pendingRestart :: bool

definition card_metrics :: "(number \<Rightarrow> string) \<Rightarrow> 'a NodeMeta_scheme \<Rightarrow> (string \<times> string) list" where
  "card_metrics loc n =
    [(''latency'', toFixed 0 (latency_us n) @ '' us''), (''rep lag'', toFixed 1 (lag_ms n) @ '' ms''),
     (''SET ops'', loc (ops_set n)), (''GET ops'', loc (ops_get n))]"

definition card_kill_begin :: "node_card \<Rightarrow> node_card" where
  "card_kill_begin c = c\<lparr>pendingKill := True\<rparr>"

definition card_kill_end :: "fetch_result \<Rightarrow> node_card \<Rightarrow> node_card" where
  "card_kill_end fr c = c\<lparr>pendingKill := False\<rparr>"

definition card_restart_begin :: "node_card \<Rightarrow> node_card" where
  "card_restart_begin c = c\<lparr>pendingRestart := True\<rparr>"

definition card_restart_end :: "fetch_result \<Rightarrow> node_card \<Rightarrow> node_card" where
  "card_restart_end fr c = c\<lparr>pendingRestart := False\<rparr>"

definition card_kill_request :: "vite_env \<Rightarrow> 'a NodeMeta_scheme \<Rightarrow> request" where
  "card_kill_request env n = \<lparr>req_method = POST,
     req_url = apiUrl env (''/api/nodes/'' @ show_int (node_id n) @ ''/kill''), req_body = None\<rparr>"

definition card_restart_request :: "vite_env \<Rightarrow> 'a NodeMeta_scheme \<Rightarrow> request" where
  "card_restart_request env n = \<lparr>req_method = POST,
     req_url = apiUrl env (''/api/nodes/'' @ show_int (node_id n) @ ''/restart''), req_body = None\<rparr>"

definition card_kill_enabled :: "'a NodeMeta_scheme \<Rightarrow> node_card \<Rightarrow> bool" where
  "card_kill_enabled n c = (\<not> (\<not> healthy n \<or> pendingKill c))"

definition card_restart_enabled :: "'a NodeMeta_scheme \<Rightarrow> node_card \<Rightarrow> bool" where
  "card_restart_enabled n c = (\<not> (healthy n \<or> pendingRestart c))"

definition card_leader_badge :: "'a NodeMeta_scheme \<Rightarrow> bool" where
  "card_leader_badge n = (is_leader n \<and> healthy n)"

section \<open>Properties\<close>

lemma leader_SomeD: "leader ns = Some l \<Longrightarrow> l \<in> set ns \<and> is_leader l \<and> healthy l"
  using find_SomeD [of "\<lambda>n. is_leader n \<and> healthy n" ns l] by (simp add: leader_def)

lemma leader_None: "leader ns = None \<longleftrightarrow> (\<forall>n \<in> set ns. \<not> (is_leader n \<and> healthy n))"
  by (auto simp: leader_def find_None_iff)

text \<open>
  C25 (functional). The quorum test is the majority test: it holds exactly when the healthy
  nodes are more than half of all nodes, so that any two sets of nodes that reach it share a
  node.
\<close>

theorem quorum_is_majority:
  "(quorumReached ns \<longleftrightarrow> length ns < 2 * length (healthyNodes ns)) \<and>
   (\<forall>A B. A \<subseteq> {..<length ns} \<and> B \<subseteq> {..<length ns} \<and> quorum ns \<le> card A \<and> quorum ns \<le> card B \<longrightarrow>
      A \<inter> B \<noteq> {})"
proof (intro conjI allI impI)
  show "quorumReached ns \<longleftrightarrow> length ns < 2 * length (healthyNodes ns)"
    unfolding quorumReached_def quorum_def by presburger
next
  fix A B :: "nat set"
  assume *: "A \<subseteq> {..<length ns} \<and> B \<subseteq> {..<length ns} \<and> quorum ns \<le> card A \<and> quorum ns \<le> card B"
  then have fin: "finite A" "finite B" by (auto intro: finite_subset)
  have "card (A \<union> B) \<le> length ns" using * card_mono [of "{..<length ns}" "A \<union> B"] by auto
  moreover have "length ns < 2 * quorum ns" unfolding quorum_def by presburger
  ultimately show "A \<inter> B \<noteq> {}" using * card_Un_disjoint [OF fin] by auto
qed

theorem quorum_is_majority_witness:
  "{0, 1} \<inter> {1, 2} \<noteq> ({} :: nat set) \<and> quorumReached (nodes initialState)"
proof -
  have "length (nodes initialState) = 3" "length (healthyNodes (nodes initialState)) = 3"
    "quorum (nodes initialState) = 2"
    by (simp_all add: initialState_def healthyNodes_def initial_node_def quorum_def)
  then show ?thesis using quorum_is_majority [of "nodes initialState"] by simp
qed

end
