(* ===== verification/Notifications.thy ===== *)
theory Notifications
  imports ClusterView
begin

text \<open>
  The notification centre of \<open>App\<close> in \<^verbatim>\<open>frontend/src/App.tsx\<close>: two effects compare the
  connection status and the node list with what they saw at their last run and push a
  notification for every difference; the bell shows how many are unread. The identifier and
  time of a notification come from the platform and are the parameter \<open>stamp\<close>.
\<close>

section \<open>State and operations\<close>

datatype NotificationLevel = NInfo | NSuccess | NWarn | NError

record message =
  msg_title :: string
  msg_detail :: string
  msg_level :: NotificationLevel

record NotificationItem = message +
  nt_id :: string
  nt_ts :: number
  nt_read :: bool

record centre =
  notificationsOpen :: bool
  notifications :: "NotificationItem list"
  nodesInitialized :: bool
  prevWsStatus :: ws_status
  prevNodes :: "NodeMeta list"

definition centre_init :: "ws_status \<Rightarrow> NodeMeta list \<Rightarrow> centre" where
  "centre_init st ns = \<lparr>notificationsOpen = False, notifications = [], nodesInitialized = False,
     prevWsStatus = st, prevNodes = ns\<rparr>"

definition msg :: "string \<Rightarrow> string \<Rightarrow> NotificationLevel \<Rightarrow> message" where
  "msg t d l = \<lparr>msg_title = t, msg_detail = d, msg_level = l\<rparr>"

definition add_item :: "NotificationItem \<Rightarrow> centre \<Rightarrow> centre" where
  "add_item item c = c\<lparr>notifications := take 60 (item # notifications c)\<rparr>"

definition pushNotification :: "string \<times> number \<Rightarrow> message \<Rightarrow> centre \<Rightarrow> centre" where
  "pushNotification stamp m c = add_item \<lparr>msg_title = msg_title m, msg_detail = msg_detail m,
     msg_level = msg_level m, nt_id = fst stamp, nt_ts = snd stamp, nt_read = False\<rparr> c"

definition unreadCount :: "centre \<Rightarrow> nat" where
  "unreadCount c = foldl (\<lambda>count item. if nt_read item then count else count + 1) 0 (notifications c)"

definition badge :: "centre \<Rightarrow> string option" where
  "badge c = (if 0 < unreadCount c
     then Some (if 9 < unreadCount c then ''9+'' else show_nat (unreadCount c)) else None)"

definition push_all :: "(nat \<Rightarrow> string \<times> number) \<Rightarrow> message list \<Rightarrow> centre \<Rightarrow> centre" where
  "push_all stamp ms = fold (\<lambda>(k, m). pushNotification (stamp k) m) (enumerate 0 ms)"

definition online_effect :: "(nat \<Rightarrow> string \<times> number) \<Rightarrow> centre \<Rightarrow> centre" where
  "online_effect stamp = push_all stamp [msg ''Notification Center Online''
     ''Watching connection state, node health, and quorum readiness.'' NInfo]"

definition ws_messages :: "ws_status \<Rightarrow> ws_status \<Rightarrow> message list" where
  "ws_messages prev st =
     (if prev \<noteq> st then
        [case st of
           WsOpen \<Rightarrow> msg ''Gateway Connection Restored'' ''Live event stream is active.'' NSuccess
         | WsConnecting \<Rightarrow> msg ''Gateway Reconnecting'' ''Attempting to restore stream from backend.'' NWarn
         | WsClosed \<Rightarrow> msg ''Gateway Connection Closed''
             ''Live stream is offline. Metrics will use fallback behavior.'' NError]
      else [])"

definition ws_effect :: "(nat \<Rightarrow> string \<times> number) \<Rightarrow> ws_status \<Rightarrow> centre \<Rightarrow> centre" where
  "ws_effect stamp st c = (push_all stamp (ws_messages (prevWsStatus c) st) c)\<lparr>prevWsStatus := st\<rparr>"

text \<open>\<open>new Map(prevNodes.map(\<dots>))\<close>: a later entry replaces an earlier one.\<close>

definition prevById :: "NodeMeta list \<Rightarrow> int \<Rightarrow> NodeMeta option" where
  "prevById prev = map_of (rev (map (\<lambda>n. (node_id n, n)) prev))"

definition recovered :: "NodeMeta \<Rightarrow> message" where
  "recovered n = msg (''Node '' @ show_int (node_id n) @ '' Recovered'')
     (host n @ '':'' @ show_int (port n) @ '' is healthy again.'') NSuccess"

definition unreachable :: "NodeMeta \<Rightarrow> message" where
  "unreachable n = msg (''Node '' @ show_int (node_id n) @ '' Unreachable'')
     (host n @ '':'' @ show_int (port n) @ '' stopped responding.'') NError"

definition node_change :: "NodeMeta list \<Rightarrow> NodeMeta \<Rightarrow> message list" where
  "node_change prev n = (case prevById prev (node_id n) of None \<Rightarrow> []
     | Some old \<Rightarrow> if healthy old \<noteq> healthy n
                   then [if healthy n then recovered n else unreachable n] else [])"

definition health_messages :: "NodeMeta list \<Rightarrow> NodeMeta list \<Rightarrow> message list" where
  "health_messages prev ns = concat (map (node_change prev) ns)"

definition leader_messages :: "NodeMeta list \<Rightarrow> NodeMeta list \<Rightarrow> message list" where
  "leader_messages prev ns =
     (let previousLeader = map_option node_id (leader prev); currentLeader = map_option node_id (leader ns) in
      if previousLeader \<noteq> currentLeader then
        [if currentLeader \<noteq> None \<and> currentLeader \<noteq> Some 0
         then msg ''Leader Updated'' (''Node '' @ show_int (the currentLeader) @ '' is now the active leader.'') NInfo
         else msg ''Leader Unavailable'' ''No healthy leader currently detected.'' NWarn]
      else [])"

text \<open>Both sides are compared with the quorum of the current list.\<close>

definition quorum_messages :: "NodeMeta list \<Rightarrow> NodeMeta list \<Rightarrow> message list" where
  "quorum_messages prev ns =
     (let q = quorum ns; currentHealthy = length (filter healthy ns);
          previousQuorum = (q \<le> length (filter healthy prev)); currentQuorum = (q \<le> currentHealthy);
          ratio = show_nat currentHealthy @ ''/'' @ show_nat (length ns) in
      if previousQuorum \<noteq> currentQuorum then
        [if currentQuorum then msg ''Quorum Restored'' (''Cluster has '' @ ratio @ '' healthy replicas.'') NSuccess
         else msg ''Quorum Lost'' (''Only '' @ ratio @ '' replicas are healthy. Writes may stall.'') NError]
      else [])"

definition node_messages :: "NodeMeta list \<Rightarrow> NodeMeta list \<Rightarrow> message list" where
  "node_messages prev ns = health_messages prev ns @ leader_messages prev ns @ quorum_messages prev ns"

definition nodes_effect :: "(nat \<Rightarrow> string \<times> number) \<Rightarrow> NodeMeta list \<Rightarrow> centre \<Rightarrow> centre" where
  "nodes_effect stamp ns c =
     (if \<not> nodesInitialized c then c\<lparr>nodesInitialized := True, prevNodes := ns\<rparr>
      else (push_all stamp (node_messages (prevNodes c) ns) c)\<lparr>prevNodes := ns\<rparr>)"

text \<open>Opening and closing the panel; the effect of opening it marks every item as read.\<close>

definition setNotificationsOpen :: "bool \<Rightarrow> centre \<Rightarrow> centre" where
  "setNotificationsOpen v c =
     (let c' = c\<lparr>notificationsOpen := v\<rparr> in
      if v \<noteq> notificationsOpen c \<and> v
      then c'\<lparr>notifications := map (\<lambda>item. if nt_read item then item else item\<lparr>nt_read := True\<rparr>) (notifications c')\<rparr>
      else c')"

definition toggleNotifications :: "centre \<Rightarrow> centre" where
  "toggleNotifications c = setNotificationsOpen (\<not> notificationsOpen c) c"

definition clearNotifications :: "centre \<Rightarrow> centre" where
  "clearNotifications c = c\<lparr>notifications := []\<rparr>"

section \<open>Interfaces\<close>

interpretation notification_log: bounded_log add_item notifications 60
  by unfold_locales (simp_all add: add_item_def)

section \<open>Lemmas\<close>

lemma push_frame [simp]:
  "notificationsOpen (pushNotification st m c) = notificationsOpen c"
  "nodesInitialized (pushNotification st m c) = nodesInitialized c"
  "prevWsStatus (pushNotification st m c) = prevWsStatus c"
  "prevNodes (pushNotification st m c) = prevNodes c"
  by (simp_all add: pushNotification_def add_item_def)

lemma push_all_frame [simp]:
  "notificationsOpen (push_all stamp ms c) = notificationsOpen c"
  "nodesInitialized (push_all stamp ms c) = nodesInitialized c"
  "prevWsStatus (push_all stamp ms c) = prevWsStatus c"
  "prevNodes (push_all stamp ms c) = prevNodes c"
proof -
  have "notificationsOpen c' = notificationsOpen c \<and> nodesInitialized c' = nodesInitialized c \<and>
      prevWsStatus c' = prevWsStatus c \<and> prevNodes c' = prevNodes c"
    if "c' = fold (\<lambda>(k, m). pushNotification (stamp k) m) kms c" for kms c'
    using that by (induction kms arbitrary: c) auto
  then show "notificationsOpen (push_all stamp ms c) = notificationsOpen c"
    "nodesInitialized (push_all stamp ms c) = nodesInitialized c"
    "prevWsStatus (push_all stamp ms c) = prevWsStatus c"
    "prevNodes (push_all stamp ms c) = prevNodes c"
    by (simp_all add: push_all_def)
qed

text \<open>The texts of the items, newest first.\<close>

abbreviation texts :: "centre \<Rightarrow> message list" where
  "texts c \<equiv> map message.truncate (notifications c)"

lemma push_all_texts:
  assumes "length (notifications c) \<le> 60"
  shows "texts (push_all stamp ms c) = take 60 (rev ms @ texts c)"
proof -
  let ?item = "\<lambda>(k, m). \<lparr>msg_title = msg_title m, msg_detail = msg_detail m, msg_level = msg_level m,
     nt_id = fst (stamp k), nt_ts = snd (stamp k), nt_read = False\<rparr>"
  have "push_all stamp ms c = fold add_item (map ?item (enumerate 0 ms)) c"
    by (simp add: push_all_def fold_map comp_def pushNotification_def [abs_def] case_prod_unfold)
  then have "notifications (push_all stamp ms c) = take 60 (rev (map ?item (enumerate 0 ms)) @ notifications c)"
    using notification_log.entries_fold assms by simp
  moreover have "message.truncate (?item km) = snd km" for km
    by (cases km) (simp add: message.truncate_def)
  then have "message.truncate \<circ> ?item = snd" by (simp add: fun_eq_iff)
  then have "map message.truncate (rev (map ?item (enumerate 0 ms))) = rev ms"
    by (simp only: rev_map [symmetric] map_map map_snd_enumerate)
  ultimately show ?thesis by (simp only: take_map [symmetric] map_append)
qed


lemma prevById_iff:
  assumes "distinct (map node_id prev)"
  shows "prevById prev i = Some n \<longleftrightarrow> n \<in> set prev \<and> node_id n = i"
proof -
  have "distinct (map fst (rev (map (\<lambda>n. (node_id n, n)) prev)))"
    using assms by (simp add: comp_def flip: rev_map)
  then show ?thesis unfolding prevById_def by (auto simp: map_of_eq_Some_iff)
qed

lemma health_messages_iff:
  assumes "distinct (map node_id prev)"
  shows "m \<in> set (health_messages prev ns) \<longleftrightarrow>
    (\<exists>old \<in> set prev. \<exists>n \<in> set ns. node_id old = node_id n \<and> healthy old \<noteq> healthy n \<and>
       m = (if healthy n then recovered n else unreachable n))"
proof -
  have "m \<in> set (node_change prev n) \<longleftrightarrow> (\<exists>old. prevById prev (node_id n) = Some old \<and>
      healthy old \<noteq> healthy n \<and> m = (if healthy n then recovered n else unreachable n))" for n
    by (cases "prevById prev (node_id n)") (auto simp: node_change_def)
  then have "m \<in> set (health_messages prev ns) \<longleftrightarrow> (\<exists>n \<in> set ns. \<exists>old. prevById prev (node_id n) = Some old \<and>
      healthy old \<noteq> healthy n \<and> m = (if healthy n then recovered n else unreachable n))"
    by (simp add: health_messages_def)
  then show ?thesis unfolding prevById_iff [OF assms] by blast
qed

lemma nodes_effect_texts:
  assumes "nodesInitialized c" "length (notifications c) \<le> 60"
  shows "texts (nodes_effect stamp ns c) = take 60 (rev (node_messages (prevNodes c) ns) @ texts c)"
  using assms push_all_texts [of c stamp "node_messages (prevNodes c) ns"] by (simp add: nodes_effect_def)

lemma foldl_unread: "foldl (\<lambda>count item. if nt_read item then count else count + 1) k xs
    = k + length (filter (\<lambda>item. \<not> nt_read item) xs)" for k :: nat
  by (induction xs arbitrary: k) simp_all

lemma unreadCount_eq: "unreadCount c = length (filter (\<lambda>item. \<not> nt_read item) (notifications c))"
  by (simp add: unreadCount_def foldl_unread)

lemma same_nodes_quiet:
  assumes "distinct (map node_id ns)"
  shows "node_messages ns ns = []"
proof -
  have "health_messages ns ns = []"
    using health_messages_iff [OF assms, of _ ns] prevById_iff [OF assms]
    by (metis last_in_set option.inject)
  then show ?thesis by (simp add: node_messages_def leader_messages_def quorum_messages_def Let_def)
qed

text \<open>When one node of the list goes down, it alone causes a health message.\<close>

lemma killed_node_message:
  assumes "distinct (map node_id ns)" "n \<in> set ns" "healthy n"
  shows "health_messages ns (map (\<lambda>m. if node_id m = node_id n then force_down m else m) ns) = [unreachable n]"
proof -
  obtain xs ys where ns: "ns = xs @ n # ys" using assms(2) by (meson split_list)
  define f where "f m = (if node_id m = node_id n then force_down m else m)" for m
  have self: "prevById ns (node_id m) = Some m" if "m \<in> set ns" for m
    using prevById_iff [OF assms(1)] that by blast
  have "node_change ns (f m) = []" if "m \<in> set ns" "m \<noteq> n" for m
    using self [OF that(1)] assms(1,2) that inj_onD [of node_id "set ns" m n]
    by (auto simp: distinct_map node_change_def f_def)
  then have others: "concat (map (\<lambda>m. node_change ns (f m)) zs) = []"
    if "set zs \<subseteq> set ns" "n \<notin> set zs" for zs
    using that by (induction zs) auto
  have "concat (map (\<lambda>m. node_change ns (f m)) xs) = []" "concat (map (\<lambda>m. node_change ns (f m)) ys) = []"
    by (rule others; use assms(1) ns in auto)+
  moreover have "node_change ns (f n) = [unreachable n]"
    using self [OF assms(2)] assms(3) by (simp add: unreachable_def node_change_def f_def force_down_def)
  ultimately have "concat (map (\<lambda>m. node_change ns (f m)) (xs @ n # ys)) = [unreachable n]"
    by (simp only: map_append concat_append list.map concat.simps append_Nil append_Nil2)
  then show ?thesis by (simp add: health_messages_def comp_def f_def [abs_def] flip: ns)
qed

text \<open>The leader after a kill: another node, and the same one unless the leader was killed.\<close>

lemma leader_after_kill:
  fixes ns :: "NodeMeta list"
  assumes "distinct (map node_id ns)" "n \<in> set ns"
  defines "ks \<equiv> map (\<lambda>m. if node_id m = node_id n then force_down m else m) ns"
  shows "leader ns \<noteq> Some n \<Longrightarrow> leader ks = leader ns" and "leader ks = Some m \<Longrightarrow> node_id m \<noteq> node_id n"
proof -
  have same: "m = n" if "m \<in> set ns" "node_id m = node_id n" for m
    using assms(1,2) that by (auto simp: distinct_map dest: inj_onD)
  show "node_id m \<noteq> node_id n" if "leader ks = Some m"
    using that by (auto simp: leader_def ks_def find_Some_iff force_down_simps split: if_splits)
  assume other: "leader ns \<noteq> Some n"
  have "List.find (\<lambda>m. is_leader m \<and> healthy m) (map (\<lambda>m. if node_id m = node_id n then force_down m else m) xs) =
      List.find (\<lambda>m. is_leader m \<and> healthy m) xs"
    if "List.find (\<lambda>m. is_leader m \<and> healthy m) xs \<noteq> Some n" "set xs \<subseteq> set ns" for xs
    using that by (induction xs) (auto simp: force_down_simps dest: same split: if_splits)
  from this [of ns] other show "leader ks = leader ns" by (simp add: leader_def ks_def)
qed

lemma kill_leader_messages:
  fixes ns :: "NodeMeta list"
  assumes "distinct (map node_id ns)" "n \<in> set ns"
  defines "ks \<equiv> map (\<lambda>m. if node_id m = node_id n then force_down m else m) ns"
  shows "leader_messages ns ks = (if leader ns = Some n then
     [case leader ks of Some m \<Rightarrow> if node_id m \<noteq> 0 then msg ''Leader Updated'' (''Node '' @ show_int (node_id m) @ '' is now the active leader.'') NInfo
          else msg ''Leader Unavailable'' ''No healthy leader currently detected.'' NWarn
      | None \<Rightarrow> msg ''Leader Unavailable'' ''No healthy leader currently detected.'' NWarn] else [])"
proof (cases "leader ns = Some n")
  case True
  then have "map_option node_id (leader ns) \<noteq> map_option node_id (leader ks)"
    using leader_after_kill(2) [OF assms(1,2)] unfolding ks_def
    by (cases "leader (map (\<lambda>m. if node_id m = node_id n then force_down m else m) ns)") auto
  then show ?thesis using True by (auto simp: leader_messages_def Let_def split: option.split)
next
  case False
  then show ?thesis using leader_after_kill(1) [OF assms(1,2)] by (simp add: leader_messages_def Let_def ks_def)
qed

lemma kill_quorum_messages:
  fixes ns :: "NodeMeta list" and i :: int
  defines "ks \<equiv> map (\<lambda>m. if node_id m = i then force_down m else m) ns"
  shows "quorum_messages ns ks = (if quorumReached ns \<and> \<not> quorumReached ks then
     [msg ''Quorum Lost'' (''Only '' @ show_nat (length (healthyNodes ks)) @ ''/'' @ show_nat (length ns) @
        '' replicas are healthy. Writes may stall.'') NError] else [])"
proof -
  have "length (filter healthy ks) \<le> length (filter healthy ns)"
    unfolding ks_def by (induction ns) (auto simp: force_down_simps)
  then show ?thesis by (auto simp: quorum_messages_def Let_def quorumReached_def quorum_def healthyNodes_def ks_def)
qed

section \<open>Properties\<close>

text \<open>
  C24 (functional). The health notifications of a snapshot are exactly the differences: a node
  is reported unreachable (recovered) if and only if it was known, was healthy (down) and is
  down (healthy) now; and a snapshot equal to the last one reports nothing at all.
\<close>

theorem health_messages_exact:
  assumes "distinct (map node_id prev)"
  shows "(\<forall>m. m \<in> set (health_messages prev ns) \<longleftrightarrow>
      (\<exists>old \<in> set prev. \<exists>n \<in> set ns. node_id old = node_id n \<and> healthy old \<noteq> healthy n \<and>
         m = (if healthy n then recovered n else unreachable n))) \<and>
    node_messages prev prev = []"
  using health_messages_iff [OF assms] same_nodes_quiet [OF assms] by simp

theorem health_messages_exact_witness: "node_messages (nodes initialState) (nodes initialState) = []"
proof -
  have "distinct (map node_id (nodes initialState))" by (simp add: initialState_def initial_node_def)
  from health_messages_exact [OF this, of "[]"] show ?thesis by simp
qed

text \<open>
  While the number of nodes stays the same, the loss of quorum is reported
  exactly when the majority test of the architecture view turns from true to false, its return
  exactly when the test turns from false to true, and otherwise nothing is said about quorum.
\<close>

theorem quorum_messages_exact:
  assumes "length prev = length ns"
  shows "map msg_title (quorum_messages prev ns) =
    (if quorumReached prev \<and> \<not> quorumReached ns then [''Quorum Lost'']
     else if \<not> quorumReached prev \<and> quorumReached ns then [''Quorum Restored''] else [])"
  using assms
  by (simp add: quorum_messages_def Let_def quorumReached_def quorum_def healthyNodes_def msg_def)

theorem quorum_messages_exact_witness:
  "map msg_title (quorum_messages (nodes initialState) (nodes (killNode_begin 1 (killNode_begin 2 initialState))))
     = [''Quorum Lost'']"
  using quorum_messages_exact [of "nodes initialState" "nodes (killNode_begin 1 (killNode_begin 2 initialState))"]
  by (simp add: killNode_begin_def initialState_def initial_node_def quorumReached_def quorum_def healthyNodes_def)

text \<open>
  When nodes join, the loss of quorum can go unreported: the healthy nodes of the
  previous list are measured against the quorum of the new one. A cluster of three healthy
  nodes that four dead nodes join has lost its majority without a message.
\<close>

theorem quorum_loss_missed:
  assumes "length (filter healthy prev) < quorum ns" "quorumReached prev" "\<not> quorumReached ns"
  shows "quorum_messages prev ns = []"
  using assms by (simp add: quorum_messages_def Let_def quorumReached_def healthyNodes_def)

theorem quorum_loss_missed_witness:
  "let dead = (\<lambda>i. force_down (initial_node i ''new'' 7379 False 0)); prev = nodes initialState;
       ns = prev @ map dead [4, 5, 6, 7] in
   quorumReached prev \<and> \<not> quorumReached ns \<and> quorum_messages prev ns = []"
proof -
  let ?prev = "nodes initialState"
  let ?ns = "?prev @ map (\<lambda>i. force_down (initial_node i ''new'' 7379 False 0)) [4, 5, 6, 7]"
  have "length (filter healthy ?prev) < quorum ?ns" "quorumReached ?prev" "\<not> quorumReached ?ns"
    by (simp_all add: initialState_def initial_node_def quorumReached_def quorum_def healthyNodes_def)
  with quorum_loss_missed [OF this] show ?thesis by (simp add: Let_def)
qed

text \<open>
  C23 (functional). Killing a node that is shown healthy notifies the user of exactly what it
  changed: the next run of the effect adds the node's own message, one about the leader if and
  only if it was the leader (the new one, or, also when that has the identifier 0, none), and the loss of quorum if and
  only if the majority is gone with it, in this order, and nothing else.
\<close>

theorem kill_is_notified:
  assumes "distinct (map node_id (nodes s))" "n \<in> set (nodes s)" "healthy n"
    and "nodesInitialized c" "prevNodes c = nodes s" "length (notifications c) \<le> 60"
    and "ns = nodes (killNode_begin (node_id n) s)"
  shows "texts (nodes_effect stamp ns c) = take 60 (rev ([unreachable n] @
     (if leader (nodes s) = Some n then
        [case leader ns of Some m \<Rightarrow> if node_id m \<noteq> 0
           then msg ''Leader Updated'' (''Node '' @ show_int (node_id m) @ '' is now the active leader.'') NInfo
           else msg ''Leader Unavailable'' ''No healthy leader currently detected.'' NWarn
         | None \<Rightarrow> msg ''Leader Unavailable'' ''No healthy leader currently detected.'' NWarn] else []) @
     (if quorumReached (nodes s) \<and> \<not> quorumReached ns then
        [msg ''Quorum Lost'' (''Only '' @ show_nat (length (healthyNodes ns)) @ ''/'' @ show_nat (length (nodes s)) @
           '' replicas are healthy. Writes may stall.'') NError] else [])) @ texts c)"
proof -
  have ns: "ns = map (\<lambda>m. if node_id m = node_id n then force_down m else m) (nodes s)"
    by (simp add: assms(7) killNode_begin_def)
  show ?thesis
    unfolding nodes_effect_texts [OF assms(4,6)] assms(5) node_messages_def ns killed_node_message [OF assms(1-3)]
      kill_leader_messages [OF assms(1,2)] kill_quorum_messages ..
qed

theorem kill_is_notified_witness:
  "texts (nodes_effect (\<lambda>_. ([], 0)) (nodes (killNode_begin 1 initialState))
       ((centre_init WsOpen (nodes initialState))\<lparr>nodesInitialized := True\<rparr>)) =
    [msg ''Leader Unavailable'' ''No healthy leader currently detected.'' NWarn,
     unreachable (initial_node 1 ''vaultkv-node1'' 7379 True 120)]"
proof -
  let ?n = "initial_node 1 ''vaultkv-node1'' 7379 True 120"
  let ?c = "(centre_init WsOpen (nodes initialState))\<lparr>nodesInitialized := True\<rparr>"
  have pre: "distinct (map node_id (nodes initialState))" "?n \<in> set (nodes initialState)" "healthy ?n"
    "nodesInitialized ?c" "prevNodes ?c = nodes initialState" "length (notifications ?c) \<le> 60"
    by (simp_all add: initialState_def initial_node_def centre_init_def)
  have "leader (nodes initialState) = Some ?n" "leader (nodes (killNode_begin 1 initialState)) = None"
    "quorumReached (nodes (killNode_begin 1 initialState))" "node_id ?n = 1" "texts ?c = []"
    by (simp_all add: initialState_def initial_node_def leader_def killNode_begin_def quorumReached_def quorum_def healthyNodes_def
        centre_init_def)
  with kill_is_notified [OF pre refl, of "\<lambda>_. ([], 0)"] show ?thesis by simp
qed

text \<open>
  Opening the panel marks everything read, so that the badge disappears; the
  list never exceeds sixty items, and every change of the connection status adds exactly one
  item while a repeated status adds none.
\<close>

theorem reading_and_status:
  assumes "length (notifications c) \<le> 60"
  shows "(\<not> notificationsOpen c \<longrightarrow> unreadCount (toggleNotifications c) = 0 \<and> badge (toggleNotifications c) = None) \<and>
    texts (ws_effect stamp st c) = take 60 (ws_messages (prevWsStatus c) st @ texts c) \<and>
    (ws_messages (prevWsStatus c) st = [] \<longleftrightarrow> prevWsStatus c = st)"
proof -
  have "unreadCount (toggleNotifications c) = 0" if "\<not> notificationsOpen c"
    using that by (simp add: toggleNotifications_def setNotificationsOpen_def unreadCount_eq filter_empty_conv)
  moreover have "texts (ws_effect stamp st c) = take 60 (rev (ws_messages (prevWsStatus c) st) @ texts c)"
    using push_all_texts [OF assms] by (simp add: ws_effect_def)
  moreover have "rev (ws_messages p q) = ws_messages p q" for p q by (simp add: ws_messages_def)
  ultimately show ?thesis by (simp add: badge_def ws_messages_def)
qed

theorem reading_and_status_witness:
  "unreadCount (toggleNotifications (online_effect (\<lambda>_. ([], 0)) (centre_init WsOpen []))) = 0"
proof -
  let ?c = "online_effect (\<lambda>_. ([], 0)) (centre_init WsOpen [])"
  have "length (notifications ?c) \<le> 60" "\<not> notificationsOpen ?c"
    by (simp_all add: online_effect_def push_all_def pushNotification_def add_item_def centre_init_def)
  with reading_and_status [OF this(1), of "\<lambda>_. ([], 0)" WsOpen] show ?thesis by simp
qed

end
