(* ===== verification/MiniGraph.thy ===== *)
theory MiniGraph
  imports ClusterView
begin

text \<open>
  \<open>FloatingMiniGraph\<close> of \<^verbatim>\<open>frontend/src/App.tsx\<close>: the corner and the collapsed flag of the
  floating graph, kept in the browser's local storage, and the points it shows. The storage is
  a map from keys to strings; the effects write it after every change of the state.
\<close>

datatype MiniGraphCorner = BottomRight | BottomLeft | TopRight | TopLeft

definition MINI_GRAPH_CORNERS :: "MiniGraphCorner list" where
  "MINI_GRAPH_CORNERS = [BottomRight, BottomLeft, TopRight, TopLeft]"

fun corner_name :: "MiniGraphCorner \<Rightarrow> string" where
  "corner_name BottomRight = ''bottom-right''"
| "corner_name BottomLeft = ''bottom-left''"
| "corner_name TopRight = ''top-right''"
| "corner_name TopLeft = ''top-left''"

fun MINI_GRAPH_CORNER_CLASS :: "MiniGraphCorner \<Rightarrow> string" where
  "MINI_GRAPH_CORNER_CLASS BottomRight = ''bottom-5 right-5''"
| "MINI_GRAPH_CORNER_CLASS BottomLeft = ''bottom-5 left-5''"
| "MINI_GRAPH_CORNER_CLASS TopRight = ''top-28 right-5''"
| "MINI_GRAPH_CORNER_CLASS TopLeft = ''top-28 left-5''"

type_synonym local_storage = "string \<rightharpoonup> string"

record mini_graph =
  collapsed :: bool
  corner :: MiniGraphCorner

text \<open>The initial state, read from the storage.\<close>

definition load_collapsed :: "local_storage \<Rightarrow> bool" where
  "load_collapsed ls = (case ls ''observe_mini_graph_collapsed'' of
     Some raw \<Rightarrow> if raw \<noteq> [] then raw = ''true'' else True | None \<Rightarrow> True)"

definition load_corner :: "local_storage \<Rightarrow> MiniGraphCorner" where
  "load_corner ls = (case ls ''observe_mini_graph_corner'' of
     None \<Rightarrow> BottomRight
   | Some raw \<Rightarrow> (case List.find (\<lambda>c. corner_name c = raw) MINI_GRAPH_CORNERS of
        Some c \<Rightarrow> c | None \<Rightarrow> BottomRight))"

definition load_mini_graph :: "local_storage \<Rightarrow> mini_graph" where
  "load_mini_graph ls = \<lparr>collapsed = load_collapsed ls, corner = load_corner ls\<rparr>"

text \<open>The two effects.\<close>

definition save_mini_graph :: "mini_graph \<Rightarrow> local_storage \<Rightarrow> local_storage" where
  "save_mini_graph g ls = ls(''observe_mini_graph_collapsed'' \<mapsto> (if collapsed g then ''true'' else ''false''),
     ''observe_mini_graph_corner'' \<mapsto> corner_name (corner g))"

fun indexOf :: "'a list \<Rightarrow> 'a \<Rightarrow> int" where
  "indexOf [] y = - 1"
| "indexOf (x # xs) y = (if x = y then 0 else let i = indexOf xs y in if i = - 1 then - 1 else i + 1)"

definition nextCorner :: "mini_graph \<Rightarrow> mini_graph" where
  "nextCorner g = g\<lparr>corner := MINI_GRAPH_CORNERS !
     nat ((indexOf MINI_GRAPH_CORNERS (corner g) + 1) mod int (length MINI_GRAPH_CORNERS))\<rparr>"

definition setCollapsed :: "bool \<Rightarrow> mini_graph \<Rightarrow> mini_graph" where
  "setCollapsed b g = g\<lparr>collapsed := b\<rparr>"

record mini_point =
  mp_time :: string
  mp_total :: number

definition miniData :: "(number \<Rightarrow> string) \<Rightarrow> MetricsPoint list \<Rightarrow> mini_point list" where
  "miniData clock hist = map (\<lambda>pt. \<lparr>mp_time = clock (ts pt * lit 1000),
     mp_total = set_ops_per_sec pt + get_ops_per_sec pt\<rparr>) (slice_last 20 hist)"

definition mini_latest :: "(number \<Rightarrow> string) \<Rightarrow> MetricsPoint list \<Rightarrow> number" where
  "mini_latest clock hist = nullish (map_option mp_total (js_last (miniData clock hist))) 0"

section \<open>Properties\<close>

lemma nextCorner_table:
  "nextCorner \<lparr>collapsed = b, corner = BottomRight\<rparr> = \<lparr>collapsed = b, corner = BottomLeft\<rparr>"
  "nextCorner \<lparr>collapsed = b, corner = BottomLeft\<rparr> = \<lparr>collapsed = b, corner = TopRight\<rparr>"
  "nextCorner \<lparr>collapsed = b, corner = TopRight\<rparr> = \<lparr>collapsed = b, corner = TopLeft\<rparr>"
  "nextCorner \<lparr>collapsed = b, corner = TopLeft\<rparr> = \<lparr>collapsed = b, corner = BottomRight\<rparr>"
  by (simp_all add: nextCorner_def MINI_GRAPH_CORNERS_def)

text \<open>
  The placement survives a reload: what the effects wrote is what the next
  visit reads, and whatever the storage holds, the state read from it is one the program can
  show. The move button visits all four corners and comes back after four presses.
\<close>

theorem mini_graph_persists:
  "load_mini_graph (save_mini_graph g ls) = g \<and>
   corner (load_mini_graph ls) \<in> set MINI_GRAPH_CORNERS \<and>
   (nextCorner ^^ 4) g = g \<and>
   (\<lambda>k. corner ((nextCorner ^^ k) g)) ` {..<4} = set MINI_GRAPH_CORNERS"
proof -
  obtain b c where g: "g = \<lparr>collapsed = b, corner = c\<rparr>" by (cases g) auto
  have "load_mini_graph (save_mini_graph g ls) = g"
    by (cases c) (simp_all add: g load_mini_graph_def save_mini_graph_def load_collapsed_def
        load_corner_def MINI_GRAPH_CORNERS_def)
  moreover have "corner (load_mini_graph ls) \<in> set MINI_GRAPH_CORNERS"
    by (cases "corner (load_mini_graph ls)") (simp_all add: MINI_GRAPH_CORNERS_def)
  moreover have "(nextCorner ^^ 4) g = g"
    by (cases c) (simp_all add: g numeral_eq_Suc nextCorner_table)
  moreover have "{..<4} = {0, 1, 2, 3 :: nat}" by auto
  then have "(\<lambda>k. corner ((nextCorner ^^ k) g)) ` {..<4} = set MINI_GRAPH_CORNERS"
    by (cases c) (auto simp: g numeral_eq_Suc nextCorner_table MINI_GRAPH_CORNERS_def)
  ultimately show ?thesis by simp
qed

text \<open>
  The mini graph and the dashboard agree: the figure next to the graph is the
  dashboard's current throughput, and the graph shows at most the last twenty points.
\<close>

theorem mini_graph_agrees:
  "mini_latest clock hist = throughput hist \<and> length (miniData clock hist) = min 20 (length hist)"
proof (cases "hist = []")
  case True
  have "(0 :: number) + 0 = 0" by (simp add: zero_number_def)
  with True show ?thesis by (simp add: mini_latest_def throughput_def js_last_def miniData_def slice_last_def)
next
  case False
  then have "slice_last 20 hist \<noteq> []" "last (slice_last 20 hist) = last hist"
    by (cases hist; simp add: slice_last_def)+
  with False show ?thesis
    by (simp add: mini_latest_def throughput_def js_last_def miniData_def last_map)
qed

end
