(* ===== verification/JSON_Parse.thy ===== *)
theory JSON_Parse
  imports JSON
begin

text \<open>
  \<open>JSON.parse\<close>: \<open>None\<close> where it throws a \<open>SyntaxError\<close>. A text that escapes a code unit
  above 255 is outside the strings of this development and counts as unreadable. The order of
  an object's keys is that of their first occurrence. Fuel bounds the nesting and the number
  of elements; one more than the length of the text is enough, since every call consumes a
  character.
\<close>

section \<open>Tokens\<close>

definition json_space :: "char \<Rightarrow> bool" where
  "json_space c = (code c \<in> {9, 10, 13, 32})"

abbreviation skip :: "string \<Rightarrow> string" where
  "skip \<equiv> dropWhile json_space"

definition escape_val :: "char \<Rightarrow> char option" where
  "escape_val c =
     (if c = CHR 0x22 \<or> c = CHR 0x5C \<or> c = CHR ''/'' then Some c
      else if c = CHR ''b'' then Some (CHR 0x08)
      else if c = CHR ''f'' then Some (CHR 0x0C)
      else if c = CHR ''n'' then Some (CHR 0x0A)
      else if c = CHR ''r'' then Some (CHR 0x0D)
      else if c = CHR ''t'' then Some (CHR 0x09) else None)"

definition unicode_val :: "string \<Rightarrow> char option" where
  "unicode_val ds = (case radix_val 16 ds of
     Some n \<Rightarrow> if n < 256 then Some (char_of n) else None | None \<Rightarrow> None)"

definition push_char :: "char option \<Rightarrow> (string \<times> string) option \<Rightarrow> (string \<times> string) option" where
  "push_char c r = (case (c, r) of (Some x, Some (s, t)) \<Rightarrow> Some (x # s, t) | _ \<Rightarrow> None)"

text \<open>The rest of a string after its opening quote, and what follows its closing quote.\<close>

fun parse_string :: "string \<Rightarrow> (string \<times> string) option" where
  "parse_string [] = None"
| "parse_string (c # s) =
     (if c = CHR 0x22 then Some ([], s)
      else if c = CHR 0x5C then
        (case s of [] \<Rightarrow> None
         | e # t \<Rightarrow>
           if e = CHR ''u'' then
             (case t of h1 # h2 # h3 # h4 # r \<Rightarrow> push_char (unicode_val [h1, h2, h3, h4]) (parse_string r)
              | _ \<Rightarrow> None)
           else push_char (escape_val e) (parse_string t))
      else if code c < 32 then None
      else push_char (Some c) (parse_string s))"

definition number_char :: "char \<Rightarrow> bool" where
  "number_char c = (is_digit c \<or> c \<in> set ''+-.eE'')"

text \<open>No leading zero, no empty fraction, no sign but a minus.\<close>

definition json_number :: "string \<Rightarrow> bool" where
  "json_number tok =
     (let u = (if startsWith tok ''-'' then tl tok else tok);
          i = takeWhile is_digit u; r = dropWhile is_digit u; dot = startsWith r ''.'';
          f = takeWhile is_digit (tl r); r' = (if dot then dropWhile is_digit (tl r) else r) in
      i \<noteq> [] \<and> (hd i = CHR ''0'' \<longrightarrow> i = ''0'') \<and> (dot \<longrightarrow> f \<noteq> []) \<and> exponent_val r' \<noteq> None)"

definition parse_number :: "string \<Rightarrow> (json \<times> string) option" where
  "parse_number s =
     (let tok = takeWhile number_char s in
      if json_number tok then Some (JNum (StringToNumber tok), dropWhile number_char s) else None)"

section \<open>Values\<close>

text \<open>A repeated key keeps its place and takes the last value.\<close>

fun put :: "string \<Rightarrow> json \<Rightarrow> (string \<times> json) list \<Rightarrow> (string \<times> json) list" where
  "put k v [] = [(k, v)]"
| "put k v ((k', v') # kvs) = (if k = k' then (k, v) # kvs else (k', v') # put k v kvs)"

definition make_object :: "(string \<times> json) list \<Rightarrow> json" where
  "make_object kvs = JObj (fold (\<lambda>(k, v). put k v) kvs [])"

fun parse_value :: "nat \<Rightarrow> string \<Rightarrow> (json \<times> string) option"
  and parse_elements :: "nat \<Rightarrow> string \<Rightarrow> (json list \<times> string) option"
  and parse_members :: "nat \<Rightarrow> string \<Rightarrow> ((string \<times> json) list \<times> string) option"
where
  "parse_value 0 s = None"
| "parse_value (Suc n) s =
     (case skip s of [] \<Rightarrow> None
      | c # t \<Rightarrow>
        if c = CHR 0x22 then map_option (\<lambda>(x, r). (JStr x, r)) (parse_string t)
        else if c = CHR ''['' then
          (if startsWith (skip t) '']'' then Some (JArr [], tl (skip t))
           else map_option (\<lambda>(vs, r). (JArr vs, r)) (parse_elements n t))
        else if c = CHR ''{'' then
          (if startsWith (skip t) ''}'' then Some (JObj [], tl (skip t))
           else map_option (\<lambda>(kvs, r). (make_object kvs, r)) (parse_members n t))
        else if startsWith (c # t) ''true'' then Some (JBool True, drop 3 t)
        else if startsWith (c # t) ''false'' then Some (JBool False, drop 4 t)
        else if startsWith (c # t) ''null'' then Some (JNull, drop 3 t)
        else parse_number (c # t))"
| "parse_elements 0 s = None"
| "parse_elements (Suc n) s =
     (case parse_value n s of None \<Rightarrow> None
      | Some (v, r) \<Rightarrow>
        if startsWith (skip r) '','' then map_option (\<lambda>(vs, r'). (v # vs, r')) (parse_elements n (tl (skip r)))
        else if startsWith (skip r) '']'' then Some ([v], tl (skip r)) else None)"
| "parse_members 0 s = None"
| "parse_members (Suc n) s =
     (if \<not> startsWith (skip s) [CHR 0x22] then None
      else case parse_string (tl (skip s)) of None \<Rightarrow> None
      | Some (k, r) \<Rightarrow>
        if \<not> startsWith (skip r) '':'' then None
        else case parse_value n (tl (skip r)) of None \<Rightarrow> None
        | Some (v, r') \<Rightarrow>
          if startsWith (skip r') '',''
          then map_option (\<lambda>(kvs, r''). ((k, v) # kvs, r'')) (parse_members n (tl (skip r')))
          else if startsWith (skip r') ''}'' then Some ([(k, v)], tl (skip r')) else None)"

definition JSON_parse :: "string \<Rightarrow> json option" where
  "JSON_parse s = (case parse_value (Suc (length s)) s of
     Some (v, r) \<Rightarrow> if skip r = [] then Some v else None | None \<Rightarrow> None)"

section \<open>Round trip\<close>

text \<open>Values without numbers whose objects have distinct keys.\<close>

fun plain :: "json \<Rightarrow> bool" where
  "plain (JNum x) = False"
| "plain (JArr vs) = (\<forall>v \<in> set vs. plain v)"
| "plain (JObj kvs) = (distinct (map fst kvs) \<and> (\<forall>kv \<in> set kvs. plain (snd kv)))"
| "plain v = True"

lemma hex_val_lower: "hex_val (lower_hex d) = Some (d mod 16)"
proof -
  have "\<forall>d \<in> {0..15}. hex_val (lower_hex d) = Some d" by code_simp
  moreover have "lower_hex d = lower_hex (d mod 16)" by (simp add: lower_hex_def)
  moreover have "d mod 16 \<in> {0..15}"
    using pos_mod_bound [of 16 d] pos_mod_sign [of 16 d] by simp
  ultimately show ?thesis by metis
qed

lemma unicode_val_lower:
  assumes "code c < 32"
  shows "unicode_val [CHR ''0'', CHR ''0'', lower_hex (code c div 16), lower_hex (code c)] = Some c"
proof -
  have "hex_val (CHR ''0'') = Some 0" by code_simp
  moreover have "0 \<le> code c" by (rule code_range)
  ultimately show ?thesis using assms
    by (simp add: unicode_val_def radix_val_def hex_val_lower)
qed

lemma char_by_code: "code d = n \<Longrightarrow> code c = n \<Longrightarrow> c = d"
  by (metis of_char_eq_iff)

lemmas control_chars =
  char_by_code [of "CHR 0x22" 34, simplified] char_by_code [of "CHR 0x5C" 92, simplified]
  char_by_code [of "CHR 0x08" 8, simplified] char_by_code [of "CHR 0x0C" 12, simplified]
  char_by_code [of "CHR 0x0A" 10, simplified] char_by_code [of "CHR 0x0D" 13, simplified]
  char_by_code [of "CHR 0x09" 9, simplified]

lemma parse_quote_char: "parse_string (quote_char c @ s) = push_char (Some c) (parse_string s)"
proof -
  consider "code c \<in> {34, 92, 8, 12, 10, 13, 9}" | "code c \<notin> {34, 92, 8, 12, 10, 13, 9}" "code c < 32"
    | "code c \<notin> {34, 92, 8, 12, 10, 13, 9}" "\<not> code c < 32" by blast
  then show ?thesis
  proof cases
    case 1
    then show ?thesis by (auto simp: quote_char_def escape_val_def dest!: control_chars)
  next
    case 2
    then show ?thesis using unicode_val_lower [of c] by (simp add: quote_char_def Let_def)
  next
    case 3
    then have "c \<noteq> CHR 0x22" "c \<noteq> CHR 0x5C" by auto
    with 3 show ?thesis by (simp add: quote_char_def Let_def)
  qed
qed

lemma parse_quoted: "parse_string (concat (map quote_char s) @ CHR 0x22 # r) = Some (s, r)"
  by (induction s) (simp_all add: parse_quote_char push_char_def)

lemma skip_visible: "\<not> json_space c \<Longrightarrow> skip (c # s) = c # s"
  by simp

text \<open>The first character of a serialised value neither is space nor closes a bracket.\<close>

lemma stringify_first:
  assumes "plain v"
  shows "\<exists>c t. stringify v = c # t \<and> \<not> json_space c \<and> c \<noteq> CHR '']'' \<and> c \<noteq> CHR ''}''"
  using assms by (cases v) (auto simp: quote_def json_space_def)

lemma join_Cons: "join sep (x # xs) = x @ (if xs = [] then [] else sep @ join sep xs)"
  by (cases xs) (simp_all add: join_def)

definition members_text :: "(string \<times> json) list \<Rightarrow> string" where
  "members_text kvs = join '','' (map (\<lambda>(k, v). quote k @ '':'' @ stringify v) kvs)"

lemma parse_elements_join:
  assumes "\<And>v n r. v \<in> set vs \<Longrightarrow> length (stringify v) \<le> n \<Longrightarrow> parse_value n (stringify v @ r) = Some (v, r)"
    and "vs \<noteq> []" "length (join '','' (map stringify vs)) < n"
  shows "parse_elements n (join '','' (map stringify vs) @ CHR '']'' # r) = Some (vs, r)"
  using assms
proof (induction vs arbitrary: n)
  case Nil
  then show ?case by simp
next
  case (Cons v vs)
  then obtain m where n: "n = Suc m" by (cases n) auto
  show ?case
  proof (cases "vs = []")
    case True
    then show ?thesis using Cons.prems by (simp add: n join_Cons startsWith_def json_space_def)
  next
    case False
    then have "parse_elements m (join '','' (map stringify vs) @ CHR '']'' # r) = Some (vs, r)"
      using Cons.prems by (intro Cons.IH) (auto simp: n join_Cons)
    then show ?thesis using False Cons.prems
      by (simp add: n join_Cons startsWith_def json_space_def)
  qed
qed

lemma parse_members_join:
  assumes "\<And>kv n r. kv \<in> set kvs \<Longrightarrow> length (stringify (snd kv)) \<le> n \<Longrightarrow>
      parse_value n (stringify (snd kv) @ r) = Some (snd kv, r)"
    and "kvs \<noteq> []" "length (members_text kvs) < n"
  shows "parse_members n (members_text kvs @ CHR ''}'' # r) = Some (kvs, r)"
  using assms
proof (induction kvs arbitrary: n)
  case Nil
  then show ?case by simp
next
  case (Cons kv kvs)
  obtain k v where kv: "kv = (k, v)" by fastforce
  from Cons.prems obtain m where n: "n = Suc m" by (cases n) auto
  have pv: "parse_value m (stringify v @ x) = Some (v, x)" for x
    using Cons.prems(1) [of kv] Cons.prems(3) by (simp add: kv n members_text_def join_Cons)
  show ?case
  proof (cases "kvs = []")
    case True
    then show ?thesis
      by (simp add: kv n members_text_def join_Cons startsWith_def json_space_def quote_def parse_quoted pv)
  next
    case False
    then have "parse_members m (members_text kvs @ CHR ''}'' # r) = Some (kvs, r)"
      using Cons.prems by (intro Cons.IH) (auto simp: n join_Cons members_text_def kv)
    then show ?thesis using False
      by (simp add: kv n members_text_def join_Cons startsWith_def json_space_def quote_def parse_quoted pv)
  qed
qed

lemma put_new: "k \<notin> fst ` set kvs \<Longrightarrow> put k v kvs = kvs @ [(k, v)]"
  by (induction kvs) auto

lemma make_object_distinct: "distinct (map fst kvs) \<Longrightarrow> make_object kvs = JObj kvs"
proof -
  have "fold (\<lambda>(k, v). put k v) kvs acc = acc @ kvs" if "distinct (map fst (acc @ kvs))" for acc
    using that by (induction kvs arbitrary: acc) (auto simp: put_new)
  then show "distinct (map fst kvs) \<Longrightarrow> make_object kvs = JObj kvs" by (simp add: make_object_def)
qed

lemma parse_scalar:
  assumes "plain v" "\<nexists>vs. v = JArr vs" "\<nexists>kvs. v = JObj kvs" "length (stringify v) \<le> n"
  shows "parse_value n (stringify v @ r) = Some (v, r)"
proof -
  obtain m where n: "n = Suc m" using assms(1,4) stringify_first [of v] by (cases n) auto
  from assms(1-3) show ?thesis
    by (cases v) (auto simp: n json_space_def startsWith_def quote_def parse_quoted)
qed

lemma parse_value_stringify:
  assumes "plain v" "length (stringify v) \<le> n"
  shows "parse_value n (stringify v @ r) = Some (v, r)"
  using assms
proof (induction v arbitrary: n r rule: plain.induct)
  case (2 vs)
  then obtain m where n: "n = Suc m" by (cases n) auto
  show ?case
  proof (cases "vs = []")
    case True
    then show ?thesis by (simp add: n join_def json_space_def startsWith_def)
  next
    case False
    then obtain c t where ct: "join '','' (map stringify vs) = c # t" "\<not> json_space c" "c \<noteq> CHR '']''"
      using 2(2) stringify_first by (cases vs) (fastforce simp: join_Cons)+
    have "parse_elements m (join '','' (map stringify vs) @ CHR '']'' # r) = Some (vs, r)"
      using 2 False by (intro parse_elements_join) (auto simp: n)
    then show ?thesis using ct by (simp add: n json_space_def [of "CHR ''[''"] startsWith_def)
  qed
next
  case (3 kvs)
  then obtain m where n: "n = Suc m" by (cases n) auto
  show ?case
  proof (cases "kvs = []")
    case True
    then show ?thesis by (simp add: n join_def json_space_def startsWith_def)
  next
    case False
    then obtain t where ct: "members_text kvs = CHR 0x22 # t"
      by (cases kvs) (auto simp: members_text_def join_Cons quote_def)
    have "parse_members m (members_text kvs @ CHR ''}'' # r) = Some (kvs, r)"
      using 3 False by (intro parse_members_join) (auto simp: n members_text_def)
    moreover have "stringify (JObj kvs) = CHR ''{'' # members_text kvs @ ''}''" by (simp add: members_text_def)
    ultimately show ?thesis using ct 3(2)
      by (simp add: n json_space_def startsWith_def make_object_distinct del: stringify.simps)
  qed
qed (simp, (rule parse_scalar; simp)+)

lemma JSON_parse_stringify: "plain v \<Longrightarrow> JSON_parse (stringify v) = Some v"
  using parse_value_stringify [of v "Suc (length (stringify v))" "[]"] by (simp add: JSON_parse_def)

end
