(* ===== verification/CommandPalette.thy ===== *)
theory CommandPalette
  imports Notifications MiniGraph JSON_Parse
begin

text \<open>
  The shell of \<open>App\<close> in \<^verbatim>\<open>frontend/src/App.tsx\<close>: tabs, the command palette with its recent
  entries (kept in local storage) and the keyboard shortcuts, which also close the notification
  panel. A keyboard event of the palette's input is handled there first and then by the
  document's listener.
\<close>

section \<open>State\<close>

datatype TabId = TabDashboard | TabExplorer | TabRaft | TabArchitecture

fun tab_name :: "TabId \<Rightarrow> string" where
  "tab_name TabDashboard = ''dashboard''"
| "tab_name TabExplorer = ''explorer''"
| "tab_name TabRaft = ''raft''"
| "tab_name TabArchitecture = ''architecture''"

definition tabs :: "(TabId \<times> string) list" where
  "tabs = [(TabDashboard, ''Overview''), (TabExplorer, ''Explorer''), (TabRaft, ''Consensus''),
     (TabArchitecture, ''Architecture'')]"

record search_item =
  si_id :: TabId
  si_label :: string
  si_subtitle :: string
  si_category :: string

fun subtitle :: "TabId \<Rightarrow> string" where
  "subtitle TabDashboard = ''Live cluster telemetry and throughput''"
| "subtitle TabExplorer = ''Run GET / SET / DEL / SCAN commands''"
| "subtitle TabRaft = ''Node failover and leader elections''"
| "subtitle TabArchitecture = ''Visual architecture and trace runner''"

definition searchItems :: "search_item list" where
  "searchItems = map (\<lambda>(i, l). \<lparr>si_id = i, si_label = l, si_subtitle = subtitle i, si_category = ''Navigation''\<rparr>) tabs"

type_synonym recent = "TabId \<times> string"

record shell =
  isLanding :: bool
  tab :: TabId
  sidebarOpen :: bool
  searchOpen :: bool
  searchQuery :: string
  searchActiveIndex :: nat
  recentSearches :: "recent list"
  storage :: local_storage
  centre_of :: centre

section \<open>Recent entries in the storage\<close>

definition default_recents :: "recent list" where
  "default_recents = [(TabDashboard, ''Overview''), (TabExplorer, ''Explorer''), (TabRaft, ''Consensus'')]"

definition recent_json :: "recent \<Rightarrow> json" where
  "recent_json r = JObj [(''id'', JStr (tab_name (fst r))), (''label'', JStr (snd r))]"

definition json_recent :: "json \<Rightarrow> recent option" where
  "json_recent j =
     (case j of JObj kvs \<Rightarrow>
        (case (map_of kvs ''id'', map_of kvs ''label'') of
           (Some (JStr i), Some (JStr l)) \<Rightarrow>
             map_option (\<lambda>t. (fst t, l)) (List.find (\<lambda>t. tab_name (fst t) = i) tabs)
         | _ \<Rightarrow> None)
      | _ \<Rightarrow> None)"

text \<open>
  The initial entries. The program takes the stored array at its asserted type; \<open>None\<close>
  stands for entries that are not of this type, which it never writes.
\<close>

definition load_recents :: "local_storage \<Rightarrow> recent list option" where
  "load_recents ls =
     (case ls ''observe_recent_searches'' of
        None \<Rightarrow> Some default_recents
      | Some raw \<Rightarrow>
          if raw = [] then Some default_recents
          else case JSON_parse raw of
            Some (JArr vs) \<Rightarrow> those (map json_recent (take 6 vs))
          | _ \<Rightarrow> Some [])"

definition save_recents :: "recent list \<Rightarrow> local_storage \<Rightarrow> local_storage" where
  "save_recents rs ls = ls(''observe_recent_searches'' \<mapsto> stringify (JArr (map recent_json rs)))"

definition shell_init :: "local_storage \<Rightarrow> recent list \<Rightarrow> centre \<Rightarrow> shell" where
  "shell_init ls rs c = \<lparr>isLanding = True, tab = TabDashboard, sidebarOpen = True, searchOpen = False,
     searchQuery = [], searchActiveIndex = 0, recentSearches = rs, storage = ls, centre_of = c\<rparr>"

section \<open>Operations\<close>

definition filteredSearchItems :: "string \<Rightarrow> search_item list" where
  "filteredSearchItems query =
     (let q = toLowerCase (trim query) in
      if q = [] then []
      else filter (\<lambda>item. str_includes (toLowerCase (si_label item)) q \<or>
             str_includes (toLowerCase (si_subtitle item)) q) searchItems)"

abbreviation results :: "shell \<Rightarrow> search_item list" where
  "results s \<equiv> filteredSearchItems (searchQuery s)"

definition closeSearch :: "shell \<Rightarrow> shell" where
  "closeSearch s = s\<lparr>searchOpen := False, searchQuery := [], searchActiveIndex := 0\<rparr>"

definition updated_recents :: "TabId \<Rightarrow> string \<Rightarrow> recent list \<Rightarrow> recent list" where
  "updated_recents i label rs = take 6 ((i, label) # filter (\<lambda>x. fst x \<noteq> i) rs)"

definition selectSearchItem :: "TabId \<Rightarrow> string \<Rightarrow> shell \<Rightarrow> shell" where
  "selectSearchItem i label s =
     (let updated = updated_recents i label (recentSearches s) in
      closeSearch (s\<lparr>tab := i, recentSearches := updated, storage := save_recents updated (storage s)\<rparr>))"

definition setSearchQuery :: "string \<Rightarrow> shell \<Rightarrow> shell" where
  "setSearchQuery q s = s\<lparr>searchQuery := q, searchActiveIndex := 0\<rparr>"

definition arrowDown :: "shell \<Rightarrow> shell" where
  "arrowDown s = (if 0 < length (results s)
     then s\<lparr>searchActiveIndex := (searchActiveIndex s + 1) mod length (results s)\<rparr> else s)"

definition arrowUp :: "shell \<Rightarrow> shell" where
  "arrowUp s = (if 0 < length (results s)
     then s\<lparr>searchActiveIndex := nat ((int (searchActiveIndex s) - 1 + int (length (results s))) mod int (length (results s)))\<rparr>
     else s)"

definition enterKey :: "shell \<Rightarrow> shell" where
  "enterKey s =
     (if 0 < length (results s) \<and> trim (searchQuery s) \<noteq> [] then
        let target = nullish (js_nth (results s) (searchActiveIndex s)) (results s ! 0) in
        selectSearchItem (si_id target) (si_label target) s
      else if trim (searchQuery s) = [] \<and> 0 < length (recentSearches s) then
        selectSearchItem (fst (recentSearches s ! 0)) (snd (recentSearches s ! 0)) s
      else s)"

definition inputKey :: "string \<Rightarrow> shell \<Rightarrow> shell" where
  "inputKey key s =
     (if key = ''ArrowDown'' then arrowDown s
      else if key = ''ArrowUp'' then arrowUp s
      else if key = ''Enter'' then enterKey s
      else if key = ''Escape'' then closeSearch s
      else s)"

definition setPanel :: "bool \<Rightarrow> shell \<Rightarrow> shell" where
  "setPanel v s = s\<lparr>centre_of := setNotificationsOpen v (centre_of s)\<rparr>"

definition toggleSearch :: "shell \<Rightarrow> shell" where
  "toggleSearch s = (if searchOpen s then s\<lparr>searchOpen := False, searchQuery := [], searchActiveIndex := 0\<rparr>
     else s\<lparr>searchOpen := True\<rparr>)"

text \<open>The document's listener; \<open>modifier\<close> is \<open>e.metaKey || e.ctrlKey\<close>.\<close>

definition documentKey :: "bool \<Rightarrow> string \<Rightarrow> shell \<Rightarrow> shell" where
  "documentKey modifier key s =
     (let s1 = (if modifier \<and> toLowerCase key = ''k'' then toggleSearch (setPanel False s) else s) in
      if key = ''Escape'' then setPanel False (closeSearch s1) else s1)"

section \<open>The shell as a state machine\<close>

text \<open>
  The palette's own controls exist only while it is open, the button of the landing page only
  while that is shown. The three effects of the notification centre run after renders, the first
  of them when the page is mounted.
\<close>

inductive shell_step :: "shell \<Rightarrow> shell \<Rightarrow> bool" where
  enter_console: "isLanding s \<Longrightarrow> shell_step s (s\<lparr>isLanding := False\<rparr>)"
| choose_tab: "(i, l) \<in> set tabs \<Longrightarrow> shell_step s (s\<lparr>tab := i\<rparr>)"
| sidebar: "shell_step s (s\<lparr>sidebarOpen := \<not> sidebarOpen s\<rparr>)"
| quick_search: "shell_step s (s\<lparr>searchOpen := True\<rparr>)"
| backdrop: "searchOpen s \<Longrightarrow> shell_step s (closeSearch s)"
| bell: "shell_step s (s\<lparr>centre_of := toggleNotifications (centre_of s)\<rparr>)"
| panel_close: "notificationsOpen (centre_of s) \<Longrightarrow> shell_step s (setPanel False s)"
| panel_clear: "notificationsOpen (centre_of s) \<Longrightarrow> shell_step s (s\<lparr>centre_of := clearNotifications (centre_of s)\<rparr>)"
| online: "shell_step s (s\<lparr>centre_of := online_effect stamp (centre_of s)\<rparr>)"
| notified: "shell_step s (s\<lparr>centre_of := nodes_effect stamp ns (centre_of s)\<rparr>)"
| status_change: "shell_step s (s\<lparr>centre_of := ws_effect stamp st (centre_of s)\<rparr>)"
| page_key: "shell_step s (documentKey modifier key s)"
| input_key: "searchOpen s \<Longrightarrow> shell_step s (documentKey modifier key (inputKey key s))"
| query: "searchOpen s \<Longrightarrow> shell_step s (setSearchQuery q s)"
| hover: "searchOpen s \<Longrightarrow> i < length (results s) \<Longrightarrow> shell_step s (s\<lparr>searchActiveIndex := i\<rparr>)"
| click_result: "searchOpen s \<Longrightarrow> item \<in> set (results s) \<Longrightarrow>
    shell_step s (selectSearchItem (si_id item) (si_label item) s)"
| click_jump: "searchOpen s \<Longrightarrow> trim (searchQuery s) = [] \<Longrightarrow> item \<in> set searchItems \<Longrightarrow>
    shell_step s (selectSearchItem (si_id item) (si_label item) s)"
| click_recent: "searchOpen s \<Longrightarrow> trim (searchQuery s) = [] \<Longrightarrow> r \<in> set (recentSearches s) \<Longrightarrow>
    shell_step s (selectSearchItem (fst r) (snd r) s)"

inductive shell_reach :: "shell \<Rightarrow> shell \<Rightarrow> bool" for s0 :: shell where
  reach_refl: "shell_reach s0 s0"
| reach_step: "shell_reach s0 s \<Longrightarrow> shell_step s s' \<Longrightarrow> shell_reach s0 s'"

section \<open>Lemmas\<close>

lemma json_recent_json [simp]: "json_recent (recent_json r) = Some r"
  by (cases r; cases "fst r") (simp_all add: json_recent_def recent_json_def tabs_def)

lemma those_map_Some: "(\<And>x. x \<in> set xs \<Longrightarrow> f x = Some x) \<Longrightarrow> those (map f xs) = Some xs"
  by (induction xs) auto

lemma those_recents: "those (map json_recent (map recent_json rs)) = Some rs"
  by (induction rs) auto

lemma load_save_recents:
  assumes "length rs \<le> 6"
  shows "load_recents (save_recents rs ls) = Some rs"
proof -
  have "JSON_parse (stringify (JArr (map recent_json rs))) = Some (JArr (map recent_json rs))"
    by (rule JSON_parse_stringify) (auto simp: recent_json_def)
  moreover have "stringify (JArr (map recent_json rs)) \<noteq> []" by simp
  ultimately show ?thesis using assms those_recents [of rs]
    by (simp add: load_recents_def save_recents_def del: stringify.simps map_map)
qed

lemma results_empty_query [simp]: "filteredSearchItems [] = []"
  by (simp add: filteredSearchItems_def toLowerCase_def)

definition index_ok :: "shell \<Rightarrow> bool" where
  "index_ok s \<longleftrightarrow> searchActiveIndex s < max 1 (length (results s))"

definition recents_ok :: "shell \<Rightarrow> bool" where
  "recents_ok s \<longleftrightarrow> distinct (map fst (recentSearches s)) \<and> load_recents (storage s) = Some (recentSearches s)"

definition blank_ok :: "shell \<Rightarrow> bool" where
  "blank_ok s \<longleftrightarrow> (\<not> searchOpen s \<longrightarrow> searchQuery s = [] \<and> searchActiveIndex s = 0)"

definition shell_inv :: "shell \<Rightarrow> bool" where
  "shell_inv s \<longleftrightarrow> index_ok s \<and> recents_ok s \<and> blank_ok s \<and> length (notifications (centre_of s)) \<le> 60"

lemmas shell_inv_defs = shell_inv_def index_ok_def recents_ok_def blank_ok_def

lemma distinct_tabs_le: "distinct (xs :: TabId list) \<Longrightarrow> length xs \<le> 4"
proof -
  assume d: "distinct xs"
  have "set xs \<subseteq> {TabDashboard, TabExplorer, TabRaft, TabArchitecture}" using TabId.exhaust by auto
  then have "card (set xs) \<le> card {TabDashboard, TabExplorer, TabRaft, TabArchitecture}"
    by (rule card_mono [rotated]) simp
  then show ?thesis using distinct_card [OF d] by simp
qed

lemma distinct_updated:
  "distinct (map fst rs) \<Longrightarrow> distinct (map fst ((i, l) # filter (\<lambda>x. fst x \<noteq> i) rs))"
  by (induction rs) auto

text \<open>With four tabs the bound of six entries never cuts anything off.\<close>

lemma updated_recents_eq:
  assumes "distinct (map fst rs)"
  shows "updated_recents i l rs = (i, l) # filter (\<lambda>x. fst x \<noteq> i) rs"
  using distinct_tabs_le [OF distinct_updated [OF assms, of i l]] by (simp add: updated_recents_def)

lemma closeSearch_inv [inv_intros]: "shell_inv s \<Longrightarrow> shell_inv (closeSearch s)"
  by (simp add: shell_inv_defs closeSearch_def)

lemma selectSearchItem_inv [inv_intros]:
  assumes "shell_inv s"
  shows "shell_inv (selectSearchItem i l s)"
proof -
  let ?u = "updated_recents i l (recentSearches s)"
  have d: "distinct (map fst ?u)"
    using assms distinct_updated [of "recentSearches s" i l] by (simp add: shell_inv_defs updated_recents_eq)
  then have "length ?u \<le> 6" using distinct_tabs_le [OF d] by simp
  with d assms show ?thesis
    by (simp add: shell_inv_defs selectSearchItem_def closeSearch_def Let_def load_save_recents)
qed

lemma setPanel_inv [inv_intros]: "shell_inv s \<Longrightarrow> shell_inv (setPanel v s)"
  by (simp add: shell_inv_defs setPanel_def setNotificationsOpen_def Let_def)

lemma enterKey_inv [inv_intros]: "shell_inv s \<Longrightarrow> shell_inv (enterKey s)"
  by (simp add: enterKey_def Let_def inv_intros)

lemma inputKey_inv [inv_intros]:
  assumes "shell_inv s" "searchOpen s"
  shows "shell_inv (inputKey key s)"
proof -
  have "nat (z mod int (length xs)) < length xs" if "0 < length xs" for z :: int and xs :: "search_item list"
    using that by (simp add: nat_less_iff)
  then have "shell_inv (arrowUp s)" using assms by (auto simp: shell_inv_defs arrowUp_def less_max_iff_disj)
  moreover have "shell_inv (arrowDown s)" using assms by (auto simp: shell_inv_defs arrowDown_def less_max_iff_disj)
  ultimately show ?thesis using assms by (simp add: inputKey_def inv_intros)
qed

lemma documentKey_inv [inv_intros]: "shell_inv s \<Longrightarrow> shell_inv (documentKey modifier key s)"
proof -
  have "shell_inv (toggleSearch t)" if "shell_inv t" for t
    using that by (simp add: shell_inv_defs toggleSearch_def)
  then show "shell_inv s \<Longrightarrow> shell_inv (documentKey modifier key s)"
    by (simp add: documentKey_def Let_def inv_intros)
qed

lemma effects_bounded:
  assumes "length (notifications c) \<le> 60"
  shows "length (notifications (push_all stamp ms c)) \<le> 60"
proof -
  have "length (texts (push_all stamp ms c)) \<le> 60" unfolding push_all_texts [OF assms] by simp
  then show ?thesis by simp
qed

lemma shell_step_inv: "shell_step s s' \<Longrightarrow> shell_inv s \<Longrightarrow> shell_inv s'"
proof (induction rule: shell_step.induct)
  case (online s stamp)
  then show ?case by (simp add: shell_inv_defs online_effect_def effects_bounded)
next
  case (notified s stamp ns)
  then show ?case by (simp add: shell_inv_defs nodes_effect_def effects_bounded)
next
  case (status_change s stamp st)
  then show ?case by (simp add: shell_inv_defs ws_effect_def effects_bounded)
qed (simp_all add: inv_intros, simp_all add: shell_inv_defs toggleNotifications_def setNotificationsOpen_def
  clearNotifications_def setSearchQuery_def Let_def)

lemma shell_reach_inv: "shell_reach s0 s \<Longrightarrow> shell_inv s0 \<Longrightarrow> shell_inv s"
  by (induction rule: shell_reach.induct) (auto intro: shell_step_inv)

lemma shell_init_inv:
  "load_recents ls = Some rs \<Longrightarrow> distinct (map fst rs) \<Longrightarrow> length (notifications c) \<le> 60 \<Longrightarrow>
   shell_inv (shell_init ls rs c)"
  by (simp add: shell_inv_defs shell_init_def)

text \<open>In an open palette with results, the two arrow keys undo each other.\<close>

lemma arrowUp_arrowDown:
  assumes "index_ok s" "results s \<noteq> []"
  shows "arrowUp (arrowDown s) = s" "arrowDown (arrowUp s) = s"
proof -
  let ?n = "length (results s)" and ?k = "searchActiveIndex s"
  have k: "?k < ?n" "0 < ?n" using assms by (auto simp: index_ok_def less_max_iff_disj)
  have "(int ((?k + 1) mod ?n) - 1 + int ?n) mod int ?n = int ?k"
    using k by (simp add: zmod_int mod_simps)
  with k show "arrowUp (arrowDown s) = s" by (simp add: arrowUp_def arrowDown_def)
  have "(nat ((int ?k - 1 + int ?n) mod int ?n) + 1) mod ?n = ?k"
  proof (cases ?k)
    case 0
    then have "(int ?k - 1 + int ?n) mod int ?n = int ?n - 1"
      using k mod_pos_pos_trivial [of "int ?n - 1" "int ?n"] by simp
    moreover have "nat (int ?n - 1) + 1 = ?n" using k by linarith
    ultimately show ?thesis using 0 by (metis mod_self)
  next
    case (Suc j)
    then have "(int ?k - 1 + int ?n) mod int ?n = int j" using k by (simp add: mod_pos_pos_trivial)
    then show ?thesis using Suc k by simp
  qed
  with k show "arrowDown (arrowUp s) = s" by (simp add: arrowUp_def arrowDown_def)
qed

section \<open>Properties\<close>

text \<open>
  C34 (invariant). In every state the shell can reach, the highlighted position is one of the
  results (or zero when there are none), a closed palette is blank, no tab is listed twice
  among the recent entries, the notification list keeps within its bound, and a reload of the
  page would read back exactly the recent entries now shown.
\<close>

theorem shell_invariant:
  assumes "load_recents ls = Some rs" "distinct (map fst rs)" "length (notifications c) \<le> 60"
    and "shell_reach (shell_init ls rs c) s"
  shows "(results s \<noteq> [] \<longrightarrow> searchActiveIndex s < length (results s)) \<and>
    (\<not> searchOpen s \<longrightarrow> searchQuery s = [] \<and> searchActiveIndex s = 0) \<and>
    distinct (map fst (recentSearches s)) \<and> length (recentSearches s) \<le> 4 \<and>
    length (notifications (centre_of s)) \<le> 60 \<and>
    load_recents (storage s) = Some (recentSearches s)"
proof -
  have "shell_inv s" using shell_reach_inv [OF assms(4)] shell_init_inv [OF assms(1-3)] by blast
  then show ?thesis using distinct_tabs_le [of "map fst (recentSearches s)"]
    by (auto simp: shell_inv_defs less_max_iff_disj)
qed

theorem shell_invariant_witness:
  "let s0 = shell_init Map.empty default_recents (centre_init WsOpen []);
       s = selectSearchItem TabRaft ''Consensus'' (s0\<lparr>searchOpen := True\<rparr>) in
   load_recents (storage s) = Some (recentSearches s)"
proof -
  let ?c = "centre_init WsOpen []"
  let ?s0 = "shell_init Map.empty default_recents ?c"
  let ?item = "\<lparr>si_id = TabRaft, si_label = ''Consensus'', si_subtitle = subtitle TabRaft, si_category = ''Navigation''\<rparr>"
  have "shell_reach ?s0 (?s0\<lparr>searchOpen := True\<rparr>)"
    by (rule reach_step [OF reach_refl quick_search])
  moreover have "shell_step (?s0\<lparr>searchOpen := True\<rparr>)
      (selectSearchItem (si_id ?item) (si_label ?item) (?s0\<lparr>searchOpen := True\<rparr>))"
    by (rule click_jump) (simp_all add: shell_init_def searchItems_def tabs_def)
  ultimately have "shell_reach ?s0 (selectSearchItem TabRaft ''Consensus'' (?s0\<lparr>searchOpen := True\<rparr>))"
    using reach_step by fastforce
  from shell_invariant [OF _ _ _ this] show ?thesis
    by (simp add: Let_def load_recents_def default_recents_def centre_init_def)
qed

text \<open>
  C35 (functional). Enter opens what is highlighted: it selects the highlighted result's tab,
  makes it the first recent entry, keeps the order of the other entries, and closes the
  palette; the arrow keys undo each other.
\<close>

theorem enter_opens_highlighted:
  assumes "shell_inv s" "results s \<noteq> []"
  shows "tab (enterKey s) = si_id (results s ! searchActiveIndex s) \<and>
    recentSearches (enterKey s) =
      (si_id (results s ! searchActiveIndex s), si_label (results s ! searchActiveIndex s)) #
      filter (\<lambda>x. fst x \<noteq> si_id (results s ! searchActiveIndex s)) (recentSearches s) \<and>
    \<not> searchOpen (enterKey s) \<and> arrowUp (arrowDown s) = s \<and> arrowDown (arrowUp s) = s"
proof -
  have k: "searchActiveIndex s < length (results s)" "index_ok s" "distinct (map fst (recentSearches s))"
    using assms by (auto simp: shell_inv_defs less_max_iff_disj)
  have q: "trim (searchQuery s) \<noteq> []" using assms(2) by (auto simp: filteredSearchItems_def toLowerCase_def)
  have "enterKey s = selectSearchItem (si_id (results s ! searchActiveIndex s)) (si_label (results s ! searchActiveIndex s)) s"
    using assms(2) q k(1) by (simp add: enterKey_def js_nth_def Let_def)
  then show ?thesis using arrowUp_arrowDown [OF k(2) assms(2)] updated_recents_eq [OF k(3)]
    by (simp add: selectSearchItem_def closeSearch_def Let_def)
qed

theorem enter_opens_highlighted_witness:
  "let s = (shell_init Map.empty default_recents (centre_init WsOpen []))\<lparr>searchOpen := True, searchQuery := ''raft''\<rparr>
   in results s = [] \<and> tab (enterKey (s\<lparr>searchQuery := '' ARCH ''\<rparr>)) = TabArchitecture"
proof -
  let ?s = "(shell_init Map.empty default_recents (centre_init WsOpen []))\<lparr>searchOpen := True, searchQuery := '' ARCH ''\<rparr>"
  have r: "filteredSearchItems '' ARCH '' = [searchItems ! 3]" "filteredSearchItems ''raft'' = []" by code_simp+
  have "results ?s \<noteq> []" by (simp add: r)
  moreover have "shell_inv ?s"
    by (simp add: shell_inv_defs shell_init_def load_recents_def default_recents_def centre_init_def)
  ultimately have "tab (enterKey ?s) = si_id (results ?s ! searchActiveIndex ?s)"
    using enter_opens_highlighted by blast
  also have "\<dots> = TabArchitecture" by (simp add: r shell_init_def searchItems_def tabs_def)
  finally show ?thesis by (simp add: Let_def r shell_init_def)
qed

text \<open>
  The search is sound and complete: with a query that is not blank the results
  are exactly the items whose label or subtitle contains the trimmed
  query up to case, and every item is found by its own label and by its own subtitle.
\<close>

theorem search_exact:
  "(trim q \<noteq> [] \<longrightarrow> (\<forall>item. item \<in> set (filteredSearchItems q) \<longleftrightarrow> item \<in> set searchItems \<and>
      (\<exists>txt a b. txt \<in> {si_label item, si_subtitle item} \<and>
         toLowerCase txt = a @ toLowerCase (trim q) @ b))) \<and>
   (\<forall>item \<in> set searchItems. item \<in> set (filteredSearchItems (si_label item)) \<and>
      item \<in> set (filteredSearchItems (si_subtitle item)))"
proof (intro conjI impI)
  assume "trim q \<noteq> []"
  then show "\<forall>item. item \<in> set (filteredSearchItems q) \<longleftrightarrow> item \<in> set searchItems \<and>
      (\<exists>txt a b. txt \<in> {si_label item, si_subtitle item} \<and>
         toLowerCase txt = a @ toLowerCase (trim q) @ b)"
    by (auto simp: filteredSearchItems_def Let_def toLowerCase_def includes_iff)
next
  show "\<forall>item \<in> set searchItems. item \<in> set (filteredSearchItems (si_label item)) \<and>
      item \<in> set (filteredSearchItems (si_subtitle item))"
    by code_simp
qed

theorem search_exact_witness:
  "(searchItems ! 3) \<in> set (filteredSearchItems '' Trace '')"
proof -
  have "trim '' Trace '' \<noteq> []" by code_simp
  moreover have "toLowerCase (si_subtitle (searchItems ! 3)) =
      ''visual architecture and '' @ toLowerCase (trim '' Trace '') @ '' runner''" by code_simp
  moreover have "searchItems ! 3 \<in> set searchItems" by code_simp
  ultimately show ?thesis using search_exact [of "'' Trace ''"] by blast
qed

end
