(* ===== verification/TraceRunner.thy ===== *)
theory TraceRunner
  imports ClusterView
begin

text \<open>
  The request trace of \<open>ArchitectureView\<close> in \<^verbatim>\<open>frontend/src/App.tsx\<close>: five stages run in
  order, each marked running and then successful or failed; the first failure ends the trace.
  The nodes a trace works with are those of the render that started it. The environment gives
  the elapsed times and, if the trace gets that far, the outcome of the request.
\<close>

section \<open>State\<close>

datatype TraceStepStatus = StIdle | StRunning | StSuccess | StError

record TraceStepState =
  st_title :: string
  st_detail :: string
  st_status :: TraceStepStatus
  st_runtime :: string

record trace_result =
  tr_ok :: bool
  tr_message :: string
  tr_latencyMs :: number
  tr_payload :: string

datatype trace_op = TGet | TSet | TDel

record trace =
  traceOp :: trace_op
  traceKey :: string
  traceValue :: string
  traceRunning :: bool
  traceResult :: "trace_result option"
  traceSteps :: "TraceStepState list"

definition idle_step :: "string \<Rightarrow> string \<Rightarrow> TraceStepState" where
  "idle_step t d = \<lparr>st_title = t, st_detail = d, st_status = StIdle, st_runtime = ''Waiting to start.''\<rparr>"

definition createTraceSteps :: "TraceStepState list" where
  "createTraceSteps =
    [idle_step ''Client Request'' ''Command reaches FastAPI ingress.'',
     idle_step ''TLV Translation'' ''Gateway serializes payload into TLV frame.'',
     idle_step ''Leader WAL Commit'' ''Leader appends encrypted WAL record.'',
     idle_step ''Quorum Replication'' ''Entry replicates to majority of replicas.'',
     idle_step ''Client ACK'' ''Gateway returns commit acknowledgement.'']"

definition initialTrace :: trace where
  "initialTrace = \<lparr>traceOp = TGet, traceKey = ''user:9421'',
     traceValue = stringify (JObj [(''tier'', JStr ''pro''), (''region'', JStr ''ap-south-1'')]),
     traceRunning = False, traceResult = None, traceSteps = createTraceSteps\<rparr>"

section \<open>Operations\<close>

fun op_name :: "trace_op \<Rightarrow> string" where
  "op_name TGet = ''GET''"
| "op_name TSet = ''SET''"
| "op_name TDel = ''DEL''"

text \<open>The patches \<open>updateStep\<close> is called with set the status and the runtime text.\<close>

definition updateStep :: "nat \<Rightarrow> TraceStepStatus \<Rightarrow> string \<Rightarrow> trace \<Rightarrow> trace" where
  "updateStep index st runtime tr = tr\<lparr>traceSteps :=
     map (\<lambda>(i, step). if i = index then step\<lparr>st_status := st, st_runtime := runtime\<rparr> else step)
       (enumerate 0 (traceSteps tr))\<rparr>"

definition error_text :: "string \<Rightarrow> thrown \<Rightarrow> string" where
  "error_text fallback e = (case e of Err m \<Rightarrow> m | NonErr \<Rightarrow> fallback)"

definition ms_text :: "number \<Rightarrow> string" where
  "ms_text el = '' ('' @ num_to_string (Math_round el) @ ''ms)''"

definition executeStep :: "nat \<Rightarrow> string \<Rightarrow> thrown + 'a \<Rightarrow> number \<Rightarrow> trace \<Rightarrow> trace \<times> (thrown + 'a)" where
  "executeStep index runtime outcome el tr =
     (let tr1 = updateStep index StRunning runtime tr in
      case outcome of
        Inr v \<Rightarrow> (updateStep index StSuccess (runtime @ ms_text el) tr1, Inr v)
      | Inl e \<Rightarrow> (updateStep index StError (error_text ''Unknown failure'' e @ ms_text el) tr1, Inl e))"

definition trace_request :: "vite_env \<Rightarrow> trace \<Rightarrow> request" where
  "trace_request env tr =
     (case traceOp tr of
        TSet \<Rightarrow> \<lparr>req_method = POST, req_url = apiUrl env ''/api/keys'',
          req_body = Some (stringify (JObj [(''key'', JStr (traceKey tr)), (''value'', JStr (traceValue tr))]))\<rparr>
      | TGet \<Rightarrow> \<lparr>req_method = GET, req_url = apiUrl env (''/api/keys/'' @ encodeURIComponent (traceKey tr)),
          req_body = None\<rparr>
      | TDel \<Rightarrow> \<lparr>req_method = DELETE, req_url = apiUrl env (''/api/keys/'' @ encodeURIComponent (traceKey tr)),
          req_body = None\<rparr>)"

text \<open>The last stage: the body, or the detail of a response that is not ok.\<close>

definition ack_stage :: "fetch_result \<Rightarrow> thrown + json" where
  "ack_stage fr =
     (case fr of Inl e \<Rightarrow> Inl e
      | Inr res \<Rightarrow>
        (let responseBody = (case body res of Inr j \<Rightarrow> j
               | Inl _ \<Rightarrow> JObj [(''detail'', JStr (''HTTP '' @ show_int (status res)))]) in
         if \<not> res_ok res then
           Inl (Err (case responseBody of
               JObj kvs \<Rightarrow> (case map_of kvs ''detail'' of
                   Some d \<Rightarrow> js_String d
                 | None \<Rightarrow> ''Gateway returned '' @ show_int (status res))
             | _ \<Rightarrow> ''Gateway returned '' @ show_int (status res)))
         else Inr responseBody))"

text \<open>
  The four simulated stages. \<open>ns\<close> are the nodes of the render; stages 2 and 3 fail without a
  healthy leader and without quorum.
\<close>

definition wal_stage :: "NodeMeta list \<Rightarrow> thrown + unit" where
  "wal_stage ns = (if leader ns = None then Inl (Err ''No healthy leader available for WAL append'') else Inr ())"

definition counts_text :: "NodeMeta list \<Rightarrow> string" where
  "counts_text ns = show_nat (length (healthyNodes ns)) @ ''/'' @ show_nat (length ns)"

definition quorum_stage :: "NodeMeta list \<Rightarrow> thrown + unit" where
  "quorum_stage ns =
     (if \<not> quorumReached ns then Inl (Err (''Quorum not met ('' @ counts_text ns @ '')'')) else Inr ())"

definition wal_text :: "NodeMeta list \<Rightarrow> string" where
  "wal_text ns = (case leader ns of
     Some l \<Rightarrow> ''Leader node '' @ show_int (node_id l) @ '' appending WAL'' | None \<Rightarrow> ''No leader available'')"

text \<open>
  The \<open>try\<close> block: the trace after its last stage, the requests sent, and what it returns or
  throws.
\<close>

definition trace_stages ::
  "vite_env \<Rightarrow> NodeMeta list \<Rightarrow> (nat \<Rightarrow> number) \<Rightarrow> fetch_result \<Rightarrow> trace \<Rightarrow> trace \<times> request list \<times> (thrown + json)"
where
  "trace_stages env ns el fr tr =
    (case executeStep 0 (op_name (traceOp tr) @ '' '' @ traceKey tr @ '' received at gateway'')
        (Inr ()) (el 0) tr of
       (tr0, Inl e) \<Rightarrow> (tr0, [], Inl e)
     | (tr0, Inr u) \<Rightarrow>
     (case executeStep 1 ''Converting JSON payload to TLV frame'' (Inr ()) (el 1) tr0 of
       (tr1, Inl e) \<Rightarrow> (tr1, [], Inl e)
     | (tr1, Inr u) \<Rightarrow>
     (case executeStep 2 (wal_text ns) (wal_stage ns) (el 2) tr1 of
       (tr2, Inl e) \<Rightarrow> (tr2, [], Inl e)
     | (tr2, Inr u) \<Rightarrow>
     (case executeStep 3 (''Replicating to '' @ counts_text ns @ '' nodes'') (quorum_stage ns) (el 3) tr2 of
       (tr3, Inl e) \<Rightarrow> (tr3, [], Inl e)
     | (tr3, Inr u) \<Rightarrow>
     (case executeStep 4 ''Sending committed ACK response'' (ack_stage fr) (el 4) tr3 of
       (tr4, r) \<Rightarrow> (tr4, [trace_request env tr], r))))))"

text \<open>\<open>totalMs\<close> is the time since the start; \<open>Number(total.toFixed(2))\<close> is recorded.\<close>

definition runTrace ::
  "vite_env \<Rightarrow> NodeMeta list \<Rightarrow> (nat \<Rightarrow> number) \<Rightarrow> number \<Rightarrow> fetch_result \<Rightarrow> trace \<Rightarrow> trace \<times> request list"
where
  "runTrace env ns el totalMs fr tr =
    (if trim (traceKey tr) = [] \<or> traceRunning tr then (tr, [])
     else
       let tr0 = tr\<lparr>traceRunning := True, traceResult := None, traceSteps := createTraceSteps\<rparr> in
       case trace_stages env ns el fr tr0 of
         (tr1, reqs, Inr responseBody) \<Rightarrow>
           (tr1\<lparr>traceResult := Some \<lparr>tr_ok = True,
               tr_message = op_name (traceOp tr) @ '' request committed and acknowledged.'',
               tr_latencyMs = fixed_number 2 totalMs, tr_payload = pretty 0 responseBody\<rparr>,
              traceRunning := False\<rparr>, reqs)
       | (tr1, reqs, Inl e) \<Rightarrow>
           (tr1\<lparr>traceResult := Some \<lparr>tr_ok = False,
               tr_message = error_text ''Trace execution failed'' e,
               tr_latencyMs = fixed_number 2 totalMs, tr_payload = []\<rparr>,
              traceRunning := False\<rparr>, reqs))"

definition resetTrace :: "trace \<Rightarrow> trace" where
  "resetTrace tr = (if \<not> traceRunning tr then tr\<lparr>traceSteps := createTraceSteps, traceResult := None\<rparr> else tr)"

definition run_enabled :: "trace \<Rightarrow> bool" where
  "run_enabled tr = (\<not> (traceRunning tr \<or> trim (traceKey tr) = []))"

text \<open>The focus of the module map advances by itself.\<close>

definition nextModule :: "nat \<Rightarrow> nat \<Rightarrow> nat" where
  "nextModule count prev = (prev + 1) mod count"

section \<open>Lemmas\<close>

definition statuses :: "trace \<Rightarrow> TraceStepStatus list" where
  "statuses tr = map st_status (traceSteps tr)"

lemma updateStep_fields [simp]:
  "traceOp (updateStep i st r tr) = traceOp tr"
  "traceKey (updateStep i st r tr) = traceKey tr"
  "traceValue (updateStep i st r tr) = traceValue tr"
  "traceRunning (updateStep i st r tr) = traceRunning tr"
  "traceResult (updateStep i st r tr) = traceResult tr"
  by (simp_all add: updateStep_def)

lemma statuses_updateStep [simp]:
  "i < length (traceSteps tr) \<Longrightarrow> statuses (updateStep i st r tr) = (statuses tr)[i := st]"
  by (rule nth_equalityI) (auto simp: statuses_def updateStep_def nth_enumerate_eq nth_list_update)

lemma length_updateStep [simp]: "length (traceSteps (updateStep i st r tr)) = length (traceSteps tr)"
  by (simp add: updateStep_def)

lemma executeStep_snd [simp]: "snd (executeStep i r outcome el tr) = outcome"
  by (simp add: executeStep_def Let_def split: sum.split)

lemma executeStep_fst:
  assumes "i < length (traceSteps tr)"
  shows "statuses (fst (executeStep i r outcome el tr)) =
      (statuses tr)[i := (case outcome of Inr _ \<Rightarrow> StSuccess | Inl _ \<Rightarrow> StError)]"
    and "length (traceSteps (fst (executeStep i r outcome el tr))) = length (traceSteps tr)"
  using assms by (simp_all add: executeStep_def Let_def split: sum.split)

lemma executeStep_case:
  "case_prod f (executeStep i r outcome el tr) = f (fst (executeStep i r outcome el tr)) outcome"
  by (simp add: case_prod_beta)

text \<open>How far a trace gets, and with which status of each stage.\<close>

definition expected_statuses :: "NodeMeta list \<Rightarrow> fetch_result \<Rightarrow> TraceStepStatus list" where
  "expected_statuses ns fr =
     (if leader ns = None then [StSuccess, StSuccess, StError, StIdle, StIdle]
      else if \<not> quorumReached ns then [StSuccess, StSuccess, StSuccess, StError, StIdle]
      else (case ack_stage fr of Inl _ \<Rightarrow> [StSuccess, StSuccess, StSuccess, StSuccess, StError]
            | Inr _ \<Rightarrow> [StSuccess, StSuccess, StSuccess, StSuccess, StSuccess]))"

lemma trace_stages_statuses:
  assumes "traceSteps tr = createTraceSteps"
  shows "statuses (fst (trace_stages env ns el fr tr)) = expected_statuses ns fr"
proof -
  have l: "length (traceSteps tr) = 5" "statuses tr = [StIdle, StIdle, StIdle, StIdle, StIdle]"
    using assms by (simp_all add: createTraceSteps_def statuses_def idle_step_def)
  show ?thesis
    unfolding trace_stages_def
    by (simp add: executeStep_case executeStep_fst l wal_stage_def
        quorum_stage_def expected_statuses_def split: sum.split)
qed

lemma trace_stages_result:
  "snd (trace_stages env ns el fr tr) =
     (if leader ns = None then ([], Inl (Err ''No healthy leader available for WAL append''))
      else if \<not> quorumReached ns then ([], Inl (Err (''Quorum not met ('' @ counts_text ns @ '')'')))
      else ([trace_request env tr], ack_stage fr))"
  unfolding trace_stages_def
  by (simp add: executeStep_case wal_stage_def quorum_stage_def)

text \<open>A trace reports success exactly when every stage passed.\<close>

definition trace_passes :: "NodeMeta list \<Rightarrow> fetch_result \<Rightarrow> bool" where
  "trace_passes ns fr \<longleftrightarrow> leader ns \<noteq> None \<and> quorumReached ns \<and> (\<exists>b. ack_stage fr = Inr b)"

lemma ack_stage_Inr_iff:
  "(\<exists>b. ack_stage fr = Inr b) \<longleftrightarrow> (\<exists>res. fr = Inr res \<and> res_ok res)"
  by (auto simp: ack_stage_def Let_def split: sum.splits)

lemma trace_request_start:
  "trace_request env (tr\<lparr>traceRunning := b, traceResult := r, traceSteps := s\<rparr>) = trace_request env tr"
  by (cases "traceOp tr") (simp_all add: trace_request_def)

lemma runTrace_run:
  assumes "trim (traceKey tr) \<noteq> []" "\<not> traceRunning tr"
  shows "traceRunning (fst (runTrace env ns el t fr tr)) = False"
    and "statuses (fst (runTrace env ns el t fr tr)) = expected_statuses ns fr"
    and "\<exists>r. traceResult (fst (runTrace env ns el t fr tr)) = Some r \<and> (tr_ok r \<longleftrightarrow> trace_passes ns fr)"
    and "snd (runTrace env ns el t fr tr) =
      (if leader ns \<noteq> None \<and> quorumReached ns then [trace_request env tr] else [])"
proof -
  let ?tr0 = "tr\<lparr>traceRunning := True, traceResult := None, traceSteps := createTraceSteps\<rparr>"
  obtain tr1 reqs out where st: "trace_stages env ns el fr ?tr0 = (tr1, reqs, out)"
    by (cases "trace_stages env ns el fr ?tr0") auto
  have sts: "statuses tr1 = expected_statuses ns fr"
    using trace_stages_statuses [of ?tr0 env ns el fr] st by simp
  have res: "(reqs, out) = (if leader ns = None then ([], Inl (Err ''No healthy leader available for WAL append''))
      else if \<not> quorumReached ns then ([], Inl (Err (''Quorum not met ('' @ counts_text ns @ '')'')))
      else ([trace_request env tr], ack_stage fr))"
    using trace_stages_result [of env ns el fr ?tr0] unfolding st snd_conv trace_request_start .
  note run = runTrace_def st Let_def assms statuses_def
  show "traceRunning (fst (runTrace env ns el t fr tr)) = False"
    by (simp add: run split: sum.split)
  show "statuses (fst (runTrace env ns el t fr tr)) = expected_statuses ns fr"
    using sts by (simp add: run split: sum.split)
  show "\<exists>r. traceResult (fst (runTrace env ns el t fr tr)) = Some r \<and> (tr_ok r \<longleftrightarrow> trace_passes ns fr)"
    using res by (auto simp: run trace_passes_def split: sum.split if_splits)
  show "snd (runTrace env ns el t fr tr) =
      (if leader ns \<noteq> None \<and> quorumReached ns then [trace_request env tr] else [])"
    using res by (auto simp: run split: sum.split if_splits)
qed

section \<open>Properties\<close>

text \<open>
  C19 (functional). A trace that starts ends: it is no longer running, its stages are
  successful up to the first failure, failed there and idle after, exactly as the leader, the
  quorum and the gateway's answer decide, and it reports success if and only if there was a
  healthy leader, a quorum and a successful response.
\<close>

theorem trace_outcome:
  assumes "trim (traceKey tr) \<noteq> []" "\<not> traceRunning tr"
  shows "\<exists>tr' reqs r. runTrace env ns el t fr tr = (tr', reqs) \<and> \<not> traceRunning tr' \<and>
     statuses tr' = expected_statuses ns fr \<and> traceResult tr' = Some r \<and>
     (tr_ok r \<longleftrightarrow> leader ns \<noteq> None \<and> quorumReached ns \<and> (\<exists>res. fr = Inr res \<and> res_ok res)) \<and>
     (tr_ok r \<longleftrightarrow> (\<forall>st \<in> set (statuses tr'). st = StSuccess))"
proof -
  obtain tr' reqs where eq: "runTrace env ns el t fr tr = (tr', reqs)" by fastforce
  note run = runTrace_run [OF assms, of env ns el t fr, unfolded eq fst_conv snd_conv]
  from run(3) obtain r where r: "traceResult tr' = Some r" "tr_ok r \<longleftrightarrow> trace_passes ns fr" by blast
  have "trace_passes ns fr \<longleftrightarrow> (\<forall>st \<in> set (expected_statuses ns fr). st = StSuccess)"
    by (simp add: trace_passes_def expected_statuses_def split: sum.split)
  then show ?thesis using eq run(1,2) r
    by (auto simp: trace_passes_def ack_stage_Inr_iff)
qed

theorem trace_outcome_witness:
  "\<exists>tr' reqs. runTrace \<lparr>VITE_API_BASE_URL = None, VITE_WS_BASE_URL = None\<rparr> [] (\<lambda>_. Fin 0) (Fin 0)
      fr_ack initialTrace = (tr', reqs) \<and>
     statuses tr' = [StSuccess, StSuccess, StError, StIdle, StIdle]"
proof -
  have "trim (traceKey initialTrace) \<noteq> []" "\<not> traceRunning initialTrace" by code_simp+
  from trace_outcome [OF this, of "\<lparr>VITE_API_BASE_URL = None, VITE_WS_BASE_URL = None\<rparr>" "[]"
      "\<lambda>_. Fin 0" "Fin 0" fr_ack]
  show ?thesis by (auto simp: expected_statuses_def leader_def)
qed

text \<open>
  C20 (safety). A trace sends at most one request, and only with a healthy leader and a quorum
  among the nodes it saw; with an empty key or while a trace is running nothing happens at all.
\<close>

theorem trace_request_guarded:
  "snd (runTrace env ns el t fr tr) =
     (if trim (traceKey tr) \<noteq> [] \<and> \<not> traceRunning tr \<and> leader ns \<noteq> None \<and> quorumReached ns
      then [trace_request env tr] else []) \<and>
   (\<not> run_enabled tr \<longrightarrow> runTrace env ns el t fr tr = (tr, []))"
proof (cases "trim (traceKey tr) \<noteq> [] \<and> \<not> traceRunning tr")
  case True
  then show ?thesis using runTrace_run(4) [of tr env ns el t fr] by (simp add: run_enabled_def)
next
  case False
  then show ?thesis by (auto simp: runTrace_def)
qed

theorem trace_request_guarded_witness:
  "runTrace \<lparr>VITE_API_BASE_URL = None, VITE_WS_BASE_URL = None\<rparr> [] (\<lambda>_. Fin 0) (Fin 0) fr_ack
     (initialTrace\<lparr>traceRunning := True\<rparr>) = (initialTrace\<lparr>traceRunning := True\<rparr>, [])"
  using trace_request_guarded [of "\<lparr>VITE_API_BASE_URL = None, VITE_WS_BASE_URL = None\<rparr>" "[]"
      "\<lambda>_. Fin 0" "Fin 0" fr_ack "initialTrace\<lparr>traceRunning := True\<rparr>"]
  by (simp add: run_enabled_def)

end
