(* ===== verification/RaftViews.thy ===== *)
theory RaftViews
  imports ClusterView
begin

text \<open>
  The consensus views: \<open>RaftView\<close> of \<^verbatim>\<open>frontend/src/App.tsx\<close>, whose buttons run the actions
  of the store and report them in an event stream, and the page \<^verbatim>\<open>frontend/src/pages/Raft.tsx\<close>,
  which calls the gateway itself and, after a kill, polls the cluster for a new leader. Each
  poll is a request of its own: the interval keeps ticking while answers are outstanding.
\<close>

section \<open>RaftView\<close>

type_synonym raft_events = "string list"

definition raft_init :: raft_events where
  "raft_init = [''Cluster initialized. All nodes in FOLLOWER state.'']"

definition raft_push :: "string \<Rightarrow> raft_events \<Rightarrow> raft_events" where
  "raft_push event evs = take 30 (event # evs)"

definition kill_event :: "int \<Rightarrow> NodeActionResult \<Rightarrow> string" where
  "kill_event i r =
     (if ok r then
        (if simulated r = Some True then ''Node '' @ show_int i @ '' killed (simulated).''
         else ''Node '' @ show_int i @ '' killed.'')
      else ''Kill failed for node '' @ show_int i @ '': '' @ js_String (detail r))"

definition restart_event :: "int \<Rightarrow> NodeActionResult \<Rightarrow> string" where
  "restart_event i r =
     (if ok r then
        (if simulated r = Some True then ''Node '' @ show_int i @ '' restarted (simulated).''
         else ''Node '' @ show_int i @ '' restarted.'')
      else ''Restart failed for node '' @ show_int i @ '': '' @ js_String (detail r))"

text \<open>The button handlers: the action of the store starts at once and reports when it has ended.\<close>

definition raft_click :: "action \<Rightarrow> int \<Rightarrow> ClusterState \<Rightarrow> ClusterState" where
  "raft_click a i s = begin_action a i s"

definition raft_done ::
  "(string \<Rightarrow> string) \<Rightarrow> pending \<Rightarrow> fetch_result \<Rightarrow> ClusterState \<times> raft_events \<Rightarrow> ClusterState \<times> raft_events"
where
  "raft_done tmsg p fr = (\<lambda>(s, evs).
     let r = action_result tmsg (texts_of (act p)) fr in
     (settle_action tmsg p fr s,
      raft_push (case act p of Kill \<Rightarrow> kill_event (target p) r | Restart \<Rightarrow> restart_event (target p) r) evs))"

definition raft_kill_enabled :: "NodeMeta \<Rightarrow> bool" where
  "raft_kill_enabled n = healthy n"

definition raft_restart_enabled :: "NodeMeta \<Rightarrow> bool" where
  "raft_restart_enabled n = (\<not> healthy n)"

section \<open>The page\<close>

record EventRow =
  ev_ts :: number
  ev_msg :: string
  ev_color :: string

text \<open>The interval started by a kill: \<open>polling\<close> until it is cleared; \<open>pollsOut\<close> counts unanswered polls.\<close>

record watch =
  prevLeader :: "int option"
  attempts :: nat
  polling :: bool
  pollsOut :: nat

record page_raft =
  pr_events :: "EventRow list"
  pr_watches :: "watch list"

definition pr_init :: "number \<Rightarrow> page_raft" where
  "pr_init now = \<lparr>pr_events = [\<lparr>ev_ts = now, ev_msg = ''Cluster ready. Kill a node to trigger failover.'',
     ev_color = ''text-zinc-400''\<rparr>], pr_watches = []\<rparr>"

definition add_event :: "EventRow \<Rightarrow> page_raft \<Rightarrow> page_raft" where
  "add_event e s = s\<lparr>pr_events := e # take 79 (pr_events s)\<rparr>"

definition pr_log :: "number \<Rightarrow> string \<times> string \<Rightarrow> page_raft \<Rightarrow> page_raft" where
  "pr_log now = (\<lambda>(msg, color). add_event \<lparr>ev_ts = now, ev_msg = msg, ev_color = color\<rparr>)"

text \<open>
  The answer to a kill or restart: the line that is logged, and whether the action was
  accepted. The reads of \<open>data.ok\<close> and \<open>data.stderr\<close> raise on a \<open>null\<close> body.
\<close>

definition page_action ::
  "(string \<Rightarrow> string) \<Rightarrow> string \<Rightarrow> string \<times> string \<Rightarrow> fetch_result \<Rightarrow> bool \<times> string \<times> string"
where
  "page_action tmsg name success fr =
     (let caught = (\<lambda>e. (False, name @ '' request error: '' @
             (case e of Err m \<Rightarrow> m | NonErr \<Rightarrow> ''undefined''), ''text-red-400'')) in
      case fr of Inl e \<Rightarrow> caught e
      | Inr res \<Rightarrow>
        (case body res of Inl e \<Rightarrow> caught e
         | Inr j \<Rightarrow>
           if j = JNull then caught (Err (tmsg (if res_ok res then ''ok'' else ''stderr'')))
           else let field = (\<lambda>k. case j of JObj kvs \<Rightarrow> map_of kvs k | _ \<Rightarrow> None) in
             if \<not> res_ok res \<or> \<not> truthy (field ''ok'')
             then (False, name @ '' failed: '' @ js_String (nullish (present (field ''stderr''))
               (nullish (present (field ''detail'')) (JStr ''unknown error''))), ''text-red-400'')
             else (True, success)))"

definition watch_start :: "'a NodeMeta_scheme list \<Rightarrow> watch" where
  "watch_start ns = \<lparr>prevLeader = map_option node_id (page_leader ns), attempts = 0, polling = True, pollsOut = 0\<rparr>"

definition pr_request :: "vite_env \<Rightarrow> action \<Rightarrow> int \<Rightarrow> request" where
  "pr_request env a i = \<lparr>req_method = POST,
     req_url = apiUrl env (''/api/nodes/'' @ show_int i @ (case a of Kill \<Rightarrow> ''/kill'' | Restart \<Rightarrow> ''/restart'')),
     req_body = None\<rparr>"



definition pr_restart_begin :: "number \<Rightarrow> int \<Rightarrow> page_raft \<Rightarrow> page_raft" where
  "pr_restart_begin now i s = pr_log now (''Restarting node '' @ show_int i @ ''...'', ''text-zinc-300'') s"

definition pr_restart_end ::
  "(string \<Rightarrow> string) \<Rightarrow> number \<Rightarrow> int \<Rightarrow> fetch_result \<Rightarrow> page_raft \<Rightarrow> page_raft"
where
  "pr_restart_end tmsg now i fr s =
     pr_log now (snd (page_action tmsg ''Restart'' (''Node '' @ show_int i @ '' is back online.'', ''text-sky-300'') fr)) s"

text \<open>
  One poll. An answer is the node list of the cluster, or nothing where the request, its body
  or the search in it failed. It announces a healthy leader other than the previous one.
\<close>

type_synonym 'a poll_answer = "'a NodeMeta_scheme list option"

definition elected :: "int option \<Rightarrow> 'a poll_answer \<Rightarrow> int option" where
  "elected prev a = (case a of None \<Rightarrow> None
     | Some ns \<Rightarrow> (case leader ns of None \<Rightarrow> None
        | Some n \<Rightarrow> if Some (node_id n) \<noteq> prev then Some (node_id n) else None))"

definition elected_line :: "int \<Rightarrow> string \<times> string" where
  "elected_line i = (''New leader elected: Node '' @ show_int i, ''text-teal-300'')"

definition timeout_line :: "string \<times> string" where
  "timeout_line = (''Timeout waiting for election'', ''text-red-400'')"

definition watch_tick :: "watch \<Rightarrow> watch" where
  "watch_tick w = (if polling w then w\<lparr>pollsOut := Suc (pollsOut w)\<rparr> else w)"

definition watch_answer :: "'a poll_answer \<Rightarrow> watch \<Rightarrow> watch \<times> (string \<times> string) list" where
  "watch_answer a w =
     (let (w1, l1) = (case elected (prevLeader w) a of
            Some i \<Rightarrow> (w\<lparr>polling := False\<rparr>, [elected_line i]) | None \<Rightarrow> (w, []));
          w2 = w1\<lparr>attempts := attempts w1 + 1, pollsOut := pollsOut w1 - 1\<rparr> in
      if 20 < attempts w2 then (w2\<lparr>polling := False\<rparr>, l1 @ [timeout_line]) else (w2, l1))"



text \<open>The polls of one watch when each is answered before the next tick.\<close>

fun watch_poll :: "'a poll_answer list \<Rightarrow> watch \<Rightarrow> watch \<times> (string \<times> string) list" where
  "watch_poll [] w = (w, [])"
| "watch_poll (a # as) w =
     (if \<not> polling w then (w, [])
      else case watch_answer a (watch_tick w) of
        (w', ls) \<Rightarrow> (case watch_poll as w' of (w'', ls') \<Rightarrow> (w'', ls @ ls')))"



section \<open>Interfaces\<close>

interpretation raft_log: bounded_log raft_push "\<lambda>evs. evs" 30
  by unfold_locales (simp_all add: raft_push_def)

interpretation page_raft_log: bounded_log add_event pr_events 80
  by unfold_locales (simp_all add: add_event_def)

section \<open>Lemmas\<close>

lemma watch_answer_simps:
  "elected (prevLeader w) a = Some i \<Longrightarrow> attempts w < 20 \<Longrightarrow> watch_answer a w =
     (w\<lparr>polling := False, attempts := Suc (attempts w), pollsOut := pollsOut w - 1\<rparr>, [elected_line i])"
  "elected (prevLeader w) a = Some i \<Longrightarrow> \<not> attempts w < 20 \<Longrightarrow> watch_answer a w =
     (w\<lparr>polling := False, attempts := Suc (attempts w), pollsOut := pollsOut w - 1\<rparr>,
      [elected_line i, timeout_line])"
  "elected (prevLeader w) a = None \<Longrightarrow> attempts w < 20 \<Longrightarrow> watch_answer a w =
     (w\<lparr>attempts := Suc (attempts w), pollsOut := pollsOut w - 1\<rparr>, [])"
  "elected (prevLeader w) a = None \<Longrightarrow> \<not> attempts w < 20 \<Longrightarrow> watch_answer a w =
     (w\<lparr>polling := False, attempts := Suc (attempts w), pollsOut := pollsOut w - 1\<rparr>, [timeout_line])"
  by (simp_all add: watch_answer_def Let_def)

lemma watch_poll_stopped: "\<not> polling w \<Longrightarrow> watch_poll as w = (w, [])"
  by (cases as) simp_all

text \<open>The lines of a watch after \<open>k\<close> fruitless answers, by the first answer that announces a leader.\<close>

definition watch_lines :: "int option \<Rightarrow> nat \<Rightarrow> 'a poll_answer list \<Rightarrow> (string \<times> string) list" where
  "watch_lines prev k as =
     (case List.find (\<lambda>(i, a). elected prev a \<noteq> None) (enumerate k as) of
        Some (i, a) \<Rightarrow> elected_line (the (elected prev a)) # (if i < 20 then [] else [timeout_line])
      | None \<Rightarrow> [timeout_line])"

lemma watch_poll_lines:
  assumes "polling w" "attempts w \<le> 20" "length as = 21 - attempts w"
  shows "\<exists>w'. watch_poll (as @ bs) w = (w', watch_lines (prevLeader w) (attempts w) as) \<and>
    \<not> polling w' \<and> attempts w' \<le> 21"
  using assms
proof (induction as arbitrary: w)
  case Nil
  then show ?case by simp
next
  case (Cons a as)
  let ?w = "watch_tick w"
  have tick: "?w = w\<lparr>pollsOut := Suc (pollsOut w)\<rparr>" using Cons.prems by (simp add: watch_tick_def)
  show ?case
  proof (cases "elected (prevLeader w) a = None \<and> attempts w < 20")
    case True
    then have ans: "watch_answer a ?w = (w\<lparr>attempts := Suc (attempts w)\<rparr>, [])"
      by (simp add: tick watch_answer_simps)
    have "\<exists>w'. watch_poll (as @ bs) (w\<lparr>attempts := Suc (attempts w)\<rparr>) =
        (w', watch_lines (prevLeader w) (Suc (attempts w)) as) \<and> \<not> polling w' \<and> attempts w' \<le> 21"
      using Cons.IH [of "w\<lparr>attempts := Suc (attempts w)\<rparr>"] Cons.prems True by simp
    with ans Cons.prems(1) True show ?thesis by (auto simp: watch_lines_def)
  next
    case False
    then show ?thesis using Cons.prems
      by (cases "elected (prevLeader w) a"; cases "attempts w < 20")
        (auto simp: tick watch_answer_simps watch_poll_stopped watch_lines_def)
  qed
qed





lemma pr_log_watches [simp]: "pr_watches (pr_log now l s) = pr_watches s"
  by (simp add: pr_log_def add_event_def case_prod_beta)



text \<open>A watch to which no answer announces a leader reports the timeout from its 21st answer on.\<close>

definition waiting :: "int option \<Rightarrow> nat \<Rightarrow> page_raft \<Rightarrow> bool" where
  "waiting p k s \<longleftrightarrow> k < length (pr_watches s) \<and> prevLeader (pr_watches s ! k) = p \<and> length (pr_events s) \<le> 80 \<and>
     (polling (pr_watches s ! k) \<longleftrightarrow> attempts (pr_watches s ! k) \<le> 20)"





section \<open>Properties\<close>

text \<open>
  C27 (safety). The event stream does not overstate: it says that a node was killed, without
  the word simulated, only when the gateway confirmed the kill with a true \<open>ok\<close> field, and in
  that case the store keeps the node shown down.
\<close>

theorem raft_stream_truthful:
  assumes "raft_done tmsg \<lparr>act = Kill, target = i, previous = p\<rparr> fr (s, evs) = (s', e # evs')"
    and "e = ''Node '' @ show_int i @ '' killed.''" and "shown_down i s"
  shows "(\<exists>res v. fr = Inr res \<and> get_prop tmsg (action_body res) ''ok'' = Inr v \<and> truthy v) \<and>
    s' = s \<and> shown_down i s'"
proof -
  let ?r = "action_result tmsg kill_texts fr"
  have d: "s' = (if ok ?r then s else rollback p s)" "e = kill_event i ?r"
    using assms(1) by (auto simp: raft_done_def Let_def settle_action_eq texts_of_def raft_push_def
        split: if_splits)
  have r: "ok ?r" "simulated ?r \<noteq> Some True"
    using d(2) assms(2) by (simp_all add: kill_event_def split: if_splits)
  moreover have "simulated ?r = None \<or> simulated ?r = Some True"
    by (auto simp: action_result_def try_settle_def catch_settle_def Let_def split: sum.splits)
  ultimately show ?thesis using d(1) assms(3) confirmed_success [of tmsg kill_texts fr] by auto
qed

theorem raft_stream_truthful_witness:
  "\<exists>res v. fr_ack = Inr res \<and> get_prop (\<lambda>k. k) (action_body res) ''ok'' = Inr v \<and> truthy v"
proof -
  have "raft_done (\<lambda>k. k) \<lparr>act = Kill, target = 1, previous = initialState\<rparr> fr_ack
      (killNode_begin 1 initialState, []) =
      (killNode_begin 1 initialState, [''Node '' @ show_int 1 @ '' killed.''])"
    by (simp add: raft_done_def Let_def settle_action_eq texts_of_def fr_ack_ok raft_push_def kill_event_def)
  from raft_stream_truthful [OF this refl killNode_begin_shown_down] show ?thesis by blast
qed

text \<open>
  C28 (termination). A watch whose polls are answered one at a time stops after at most 21
  answers. It announces the first healthy leader other than the previous one and falls silent,
  or reports the timeout; a leader that appears only in the last answer is announced and
  reported as a timeout, too.
\<close>

theorem election_watch_outcome:
  assumes "21 \<le> length as"
  shows "\<exists>w. watch_poll as (watch_start ns) =
      (w, watch_lines (map_option node_id (page_leader ns)) 0 (take 21 as)) \<and>
    \<not> polling w \<and> attempts w \<le> 21"
  using watch_poll_lines [of "watch_start ns" "take 21 as" "drop 21 as"] assms
  by (simp add: watch_start_def)

theorem election_watch_outcome_witness:
  "\<exists>w. watch_poll (replicate 21 (None :: unit poll_answer)) (watch_start (nodes initialState)) = (w, [timeout_line]) \<and>
    \<not> polling w"
proof -
  have "List.find (\<lambda>(i, a). elected p a \<noteq> None) (enumerate k (replicate n (None :: unit poll_answer))) = None" for p k n
    by (auto simp: find_None_iff elected_def in_set_enumerate_eq nth_replicate)
  then show ?thesis
    using election_watch_outcome [of "replicate 21 (None :: unit poll_answer)" "nodes initialState"]
    by (auto simp: watch_lines_def)
qed



text \<open>
  Clearing the interval does not recall the polls already sent: when two are
  outstanding and both find the new leader, its election is announced twice.
\<close>

theorem overlapping_polls_announce_twice:
  assumes "polling w" "attempts w < 19" "elected (prevLeader w) a = Some i"
  shows "(let (w1, l1) = watch_answer a (watch_tick (watch_tick w)); (w2, l2) = watch_answer a w1 in
     l1 @ l2 = [elected_line i, elected_line i] \<and> \<not> polling w1 \<and> \<not> polling w2)"
  using assms by (simp add: watch_tick_def watch_answer_simps)

theorem overlapping_polls_announce_twice_witness:
  "let w = watch_start (nodes (killNode_begin 1 initialState)); a = Some (nodes initialState);
       (w1, l1) = watch_answer a (watch_tick (watch_tick w)); (w2, l2) = watch_answer a w1 in
     l1 @ l2 = [elected_line 1, elected_line 1]"
proof -
  let ?w = "watch_start (nodes (killNode_begin 1 initialState))"
  have "polling ?w" "attempts ?w < 19" "elected (prevLeader ?w) (Some (nodes initialState)) = Some 1"
    by (simp_all add: watch_start_def elected_def leader_def page_leader_def killNode_begin_def
        initialState_def initial_node_def)
  from overlapping_polls_announce_twice [OF this] show ?thesis by (simp add: Let_def case_prod_unfold)
qed

text \<open>
  Whatever is logged, the page shows at most its eighty most recent events, newest
  first.
\<close>

theorem page_events_recent:
  "pr_events (fold (pr_log now) ls (pr_init t)) =
     take 80 (rev (map (\<lambda>(m, c). \<lparr>ev_ts = now, ev_msg = m, ev_color = c\<rparr>) ls) @ pr_events (pr_init t))"
proof -
  have "fold (pr_log now) ls = fold add_event (map (\<lambda>(m, c). \<lparr>ev_ts = now, ev_msg = m, ev_color = c\<rparr>) ls)"
    by (simp add: fold_map comp_def pr_log_def case_prod_unfold)
  then show ?thesis by (simp add: page_raft_log.entries_fold pr_init_def)
qed

end
