(* ===== verification/Explorer.thy ===== *)
theory Explorer
  imports ClusterView
begin

text \<open>
  The key explorers: \<open>ExplorerView\<close> of \<^verbatim>\<open>frontend/src/App.tsx\<close> and the page
  \<^verbatim>\<open>frontend/src/pages/Explorer.tsx\<close> with its table \<^verbatim>\<open>components/KeyTable.tsx\<close>. A command
  captures the inputs of the render it was started from, sends one request and adds one row
  when the request has ended. \<open>el\<close> is the time elapsed since its start; \<open>tmsg\<close> gives the
  texts of the engine's type errors.
\<close>

section \<open>Commands\<close>

datatype Op = OpGET | OpSET | OpDEL | OpSCAN

text \<open>\<open>(err as Error).message\<close>; a thrown value that is no error has no message.\<close>

fun message :: "thrown \<Rightarrow> string option" where
  "message (Err m) = Some m"
| "message NonErr = None"

text \<open>\<open>await res.json()\<close>.\<close>

definition res_json :: "fetch_result \<Rightarrow> thrown + (response \<times> json)" where
  "res_json fr = (case fr of Inl e \<Rightarrow> Inl e
     | Inr res \<Rightarrow> (case body res of Inl e \<Rightarrow> Inl e | Inr j \<Rightarrow> Inr (res, j)))"

definition key_path :: "string \<Rightarrow> string" where
  "key_path k = ''/api/keys/'' @ encodeURIComponent k"

definition scan_path :: "string \<Rightarrow> string" where
  "scan_path k = ''/api/keys?prefix='' @ encodeURIComponent k @ ''&limit=50''"

section \<open>Addresses\<close>

text \<open>
  What the platform's URL parser makes of the path of an address given to \<open>fetch\<close>: it is cut at
  the slashes after the origin (a scheme and a host, or nothing), and a segment that is a dot or
  two, in either spelling, is not kept but stands for the directory itself or the one above it.
\<close>

fun split_on :: "char \<Rightarrow> string \<Rightarrow> string list" where
  "split_on d [] = [[]]"
| "split_on d (c # s) = (if c = d then [] # split_on d s else (c # hd (split_on d s)) # tl (split_on d s))"

definition single_dot :: "string \<Rightarrow> bool" where
  "single_dot s = (s \<in> {''.'', ''%2e'', ''%2E''})"

definition double_dot :: "string \<Rightarrow> bool" where
  "double_dot s = (s \<in> {''..'', ''.%2e'', ''.%2E'', ''%2e.'', ''%2E.'', ''%2e%2e'', ''%2e%2E'', ''%2E%2e'', ''%2E%2E''})"

definition dot_step :: "string list \<Rightarrow> string \<Rightarrow> string list" where
  "dot_step path s = (if double_dot s then butlast path else if single_dot s then path else path @ [s])"

fun dot_segments :: "string list \<Rightarrow> string list \<Rightarrow> string list" where
  "dot_segments path [] = path"
| "dot_segments path [s] = dot_step path s @ (if double_dot s \<or> single_dot s then [[]] else [])"
| "dot_segments path (s # t # ss) = dot_segments (dot_step path s) (t # ss)"

definition origin_length :: "string list \<Rightarrow> nat" where
  "origin_length segs = (if 2 < length segs \<and> segs ! 1 = [] then 3 else if hd segs = [] then 1 else 0)"

definition url_path :: "string \<Rightarrow> string list" where
  "url_path u = (let segs = split_on (CHR ''/'') (takeWhile (\<lambda>c. c \<noteq> CHR ''?'' \<and> c \<noteq> CHR ''#'') u) in
     dot_segments [] (drop (origin_length segs) segs))"

definition url_query :: "string \<Rightarrow> string" where
  "url_query u = tl (dropWhile (\<lambda>c. c \<noteq> CHR ''?'') (takeWhile (\<lambda>c. c \<noteq> CHR ''#'') u))"

section \<open>ExplorerView\<close>

record explorer_row =
  xr_op :: Op
  xr_key :: string
  xr_result :: "string option"
  xr_latency :: string
  xr_ok :: bool

record explorer =
  ex_op :: Op
  ex_key :: string
  ex_value :: string
  ex_rows :: "explorer_row list"

definition explorer_init :: explorer where
  "explorer_init = \<lparr>ex_op = OpGET, ex_key = [], ex_value = [], ex_rows = []\<rparr>"

definition operationHelp :: "Op \<Rightarrow> string \<times> string" where
  "operationHelp op = (case op of
     OpGET \<Rightarrow> (''Reads one key from the cluster.'', ''GET /api/keys/{key}'')
   | OpSET \<Rightarrow> (''Writes or updates one key/value pair.'', ''POST /api/keys'')
   | OpDEL \<Rightarrow> (''Deletes one key from the cluster.'', ''DELETE /api/keys/{key}'')
   | OpSCAN \<Rightarrow> (''Lists keys by prefix match.'', ''GET /api/keys?prefix=<x>&limit=50''))"

record example =
  eg_label :: string
  eg_op :: Op
  eg_key :: string
  eg_value :: "string option"

definition quickExamples :: "example list" where
  "quickExamples =
    [\<lparr>eg_label = ''Create profile'', eg_op = OpSET, eg_key = ''user:1001'',
       eg_value = Some (stringify (JObj [(''name'', JStr ''Ava''), (''tier'', JStr ''pro'')]))\<rparr>,
     \<lparr>eg_label = ''Read profile'', eg_op = OpGET, eg_key = ''user:1001'', eg_value = None\<rparr>,
     \<lparr>eg_label = ''List users'', eg_op = OpSCAN, eg_key = ''user:'', eg_value = None\<rparr>,
     \<lparr>eg_label = ''Delete profile'', eg_op = OpDEL, eg_key = ''user:1001'', eg_value = None\<rparr>]"

definition applyExample :: "example \<Rightarrow> explorer \<Rightarrow> explorer" where
  "applyExample eg ex = ex\<lparr>ex_op := eg_op eg, ex_key := eg_key eg, ex_value := nullish (eg_value eg) []\<rparr>"

definition execute_enabled :: "explorer \<Rightarrow> bool" where
  "execute_enabled ex = (\<not> (ex_key ex = [] \<and> ex_op ex \<noteq> OpSCAN))"

definition execute_request :: "vite_env \<Rightarrow> Op \<Rightarrow> string \<Rightarrow> string \<Rightarrow> request" where
  "execute_request env op key val =
     (case op of
        OpSET \<Rightarrow> \<lparr>req_method = POST, req_url = apiUrl env ''/api/keys'',
          req_body = Some (stringify (JObj [(''key'', JStr key), (''value'', JStr val)]))\<rparr>
      | OpGET \<Rightarrow> \<lparr>req_method = GET, req_url = apiUrl env (key_path key), req_body = None\<rparr>
      | OpDEL \<Rightarrow> \<lparr>req_method = DELETE, req_url = apiUrl env (key_path key), req_body = None\<rparr>
      | OpSCAN \<Rightarrow> \<lparr>req_method = GET, req_url = apiUrl env (scan_path key), req_body = None\<rparr>)"

text \<open>The first argument of \<open>??\<close> chains, with reading a property of \<open>null\<close> as the error case.\<close>

definition execute_result :: "(string \<Rightarrow> string) \<Rightarrow> Op \<Rightarrow> json \<Rightarrow> thrown + string" where
  "execute_result tmsg op j =
     (if op = OpSCAN then
        (case get_prop tmsg j ''items'' of Inl e \<Rightarrow> Inl e
         | Inr items \<Rightarrow> Inr (stringify (nullish (present items) (JArr []))))
      else
        (case (get_prop tmsg j ''value'', get_prop tmsg j ''detail'') of
           (Inl e, _) \<Rightarrow> Inl e
         | (Inr v, Inl e) \<Rightarrow> (case present v of Some x \<Rightarrow> Inr (js_String x) | None \<Rightarrow> Inl e)
         | (Inr v, Inr d) \<Rightarrow> Inr (js_String (nullish (present v) (nullish (present d) (JStr ''ok''))))))"

definition latency_of :: "json \<Rightarrow> number \<Rightarrow> number" where
  "latency_of j el = (case get_prop (\<lambda>k. k) j ''latency_ms'' of
     Inr v \<Rightarrow> (case present v of Some x \<Rightarrow> js_Number x | None \<Rightarrow> el) | Inl _ \<Rightarrow> el)"

definition execute_row :: "(string \<Rightarrow> string) \<Rightarrow> Op \<Rightarrow> string \<Rightarrow> number \<Rightarrow> fetch_result \<Rightarrow> explorer_row" where
  "execute_row tmsg op key el fr =
     (let failed = (\<lambda>e. \<lparr>xr_op = op, xr_key = key, xr_result = message e,
             xr_latency = toFixed 2 el @ ''ms'', xr_ok = False\<rparr>) in
      case res_json fr of
        Inl e \<Rightarrow> failed e
      | Inr (res, j) \<Rightarrow>
          (case execute_result tmsg op j of
             Inl e \<Rightarrow> failed e
           | Inr r \<Rightarrow> \<lparr>xr_op = op, xr_key = (if key = [] then ''(prefix)'' else key), xr_result = Some r,
               xr_latency = toFixed 2 (latency_of j el) @ ''ms'', xr_ok = res_ok res\<rparr>))"

definition add_row :: "explorer_row \<Rightarrow> explorer \<Rightarrow> explorer" where
  "add_row r ex = ex\<lparr>ex_rows := take 50 (r # ex_rows ex)\<rparr>"

text \<open>Started with the inputs of \<open>ex0\<close> and ended, after other events, in \<open>ex\<close>.\<close>

definition execute_begin :: "vite_env \<Rightarrow> explorer \<Rightarrow> request option" where
  "execute_begin env ex0 = (if \<not> execute_enabled ex0 then None
     else Some (execute_request env (ex_op ex0) (ex_key ex0) (ex_value ex0)))"

definition execute_end :: "(string \<Rightarrow> string) \<Rightarrow> explorer \<Rightarrow> number \<Rightarrow> fetch_result \<Rightarrow> explorer \<Rightarrow> explorer" where
  "execute_end tmsg ex0 el fr ex = add_row (execute_row tmsg (ex_op ex0) (ex_key ex0) el fr) ex"

section \<open>The page\<close>

record ResultRow =
  rr_op :: Op
  rr_key :: string
  rr_value :: "string option"
  rr_latency_ms :: number
  rr_ok :: bool
  rr_error :: "string option"
  rr_ts :: number

record page_explorer =
  pe_op :: Op
  pe_key :: string
  pe_val :: string
  pe_node :: "number option"
  pe_loading :: bool
  pe_history :: "ResultRow list"

definition pe_init :: page_explorer where
  "pe_init = \<lparr>pe_op = OpGET, pe_key = [], pe_val = [], pe_node = None, pe_loading = False, pe_history = []\<rparr>"

definition canRun :: "page_explorer \<Rightarrow> bool" where
  "canRun pe = (if pe_op pe = OpSCAN then True else 0 < length (trim (pe_key pe)))"

definition sortedNodes :: "'a NodeMeta_scheme list \<Rightarrow> 'a NodeMeta_scheme list" where
  "sortedNodes ns = sort_key node_id ns"

definition pe_select :: "string \<Rightarrow> page_explorer \<Rightarrow> page_explorer" where
  "pe_select v pe = pe\<lparr>pe_node := (if v \<noteq> [] then Some (StringToNumber v) else None)\<rparr>"

definition node_query :: "number option \<Rightarrow> string" where
  "node_query node = (case node of
     Some x \<Rightarrow> if truthy (Some (JNum x)) then ''?node='' @ num_to_string x else [] | None \<Rightarrow> [])"

definition pe_request :: "vite_env \<Rightarrow> Op \<Rightarrow> string \<Rightarrow> string \<Rightarrow> number option \<Rightarrow> request" where
  "pe_request env op requestedKey val node =
     (case op of
        OpSET \<Rightarrow> \<lparr>req_method = POST, req_url = apiUrl env ''/api/keys'',
          req_body = Some (stringify (JObj [(''key'', JStr requestedKey), (''value'', JStr val)]))\<rparr>
      | OpGET \<Rightarrow> \<lparr>req_method = GET, req_url = apiUrl env (key_path requestedKey @ node_query node), req_body = None\<rparr>
      | OpDEL \<Rightarrow> \<lparr>req_method = DELETE, req_url = apiUrl env (key_path requestedKey), req_body = None\<rparr>
      | OpSCAN \<Rightarrow> \<lparr>req_method = GET, req_url = apiUrl env (scan_path requestedKey), req_body = None\<rparr>)"

definition data_prop :: "json \<Rightarrow> string \<Rightarrow> json option" where
  "data_prop j k = (case j of JObj kvs \<Rightarrow> map_of kvs k | _ \<Rightarrow> None)"

definition pe_value :: "Op \<Rightarrow> json \<Rightarrow> string" where
  "pe_value op j =
     (if op = OpSCAN then stringify (nullish (present (data_prop j ''items'')) (JArr []))
      else case data_prop j ''value'' of
        Some (JStr s) \<Rightarrow> s
      | _ \<Rightarrow> if truthy (data_prop j ''error'') then js_String (the (data_prop j ''error'')) else stringify j)"

definition pe_errorText :: "json \<Rightarrow> string" where
  "pe_errorText j = js_String (nullish (present (data_prop j ''error''))
     (nullish (present (data_prop j ''detail'')) (JStr ''request failed'')))"

definition pe_row ::
  "(string \<Rightarrow> string) \<Rightarrow> Op \<Rightarrow> string \<Rightarrow> number \<Rightarrow> number \<Rightarrow> fetch_result \<Rightarrow> ResultRow"
where
  "pe_row tmsg op requestedKey el now fr =
     (let shown = (if requestedKey = [] then ''(empty-prefix)'' else requestedKey);
          failed = (\<lambda>e. \<lparr>rr_op = op, rr_key = shown, rr_value = None, rr_latency_ms = el, rr_ok = False,
             rr_error = message e, rr_ts = now\<rparr>) in
      case res_json fr of
        Inl e \<Rightarrow> failed e
      | Inr (res, j) \<Rightarrow>
          if j = JNull then failed (Err (tmsg ''latency_ms''))
          else \<lparr>rr_op = op, rr_key = shown, rr_value = Some (pe_value op j), rr_latency_ms = latency_of j el,
            rr_ok = res_ok res, rr_error = (if res_ok res then None else Some (pe_errorText j)), rr_ts = now\<rparr>)"

definition pe_add_row :: "ResultRow \<Rightarrow> page_explorer \<Rightarrow> page_explorer" where
  "pe_add_row r pe = pe\<lparr>pe_history := r # take 99 (pe_history pe)\<rparr>"

definition pe_begin :: "vite_env \<Rightarrow> page_explorer \<Rightarrow> (page_explorer \<times> request) option" where
  "pe_begin env pe = (if \<not> canRun pe then None
     else Some (pe\<lparr>pe_loading := True\<rparr>,
       pe_request env (pe_op pe) (trim (pe_key pe)) (pe_val pe) (pe_node pe)))"

definition pe_end ::
  "(string \<Rightarrow> string) \<Rightarrow> page_explorer \<Rightarrow> number \<Rightarrow> number \<Rightarrow> fetch_result \<Rightarrow> page_explorer \<Rightarrow> page_explorer"
where
  "pe_end tmsg pe0 el now fr pe =
     (pe_add_row (pe_row tmsg (pe_op pe0) (trim (pe_key pe0)) el now fr) pe)\<lparr>pe_loading := False\<rparr>"

definition run_button_enabled :: "page_explorer \<Rightarrow> bool" where
  "run_button_enabled pe = (\<not> (pe_loading pe \<or> \<not> canRun pe))"

definition sample_set :: "page_explorer \<Rightarrow> page_explorer" where
  "sample_set pe = pe\<lparr>pe_op := OpSET, pe_key := ''hello'', pe_val := ''world''\<rparr>"

definition sample_get :: "page_explorer \<Rightarrow> page_explorer" where
  "sample_get pe = pe\<lparr>pe_op := OpGET, pe_key := ''hello''\<rparr>"

text \<open>The names of the operations, as the code has them.\<close>

fun op_text :: "Op \<Rightarrow> string" where
  "op_text OpGET = ''GET''" | "op_text OpSET = ''SET''" | "op_text OpDEL = ''DEL''" | "op_text OpSCAN = ''SCAN''"

text \<open>
  The page with its commands in flight. The button starts a command when it is enabled, the
  Enter key of the two inputs starts one without asking whether a command is running. The field
  for the value is there for SET only, and the list of nodes offers the default and the nodes
  \<open>ns\<close> of the moment.
\<close>

record pe_sys =
  page :: page_explorer
  calls :: "page_explorer list"

datatype pe_event =
    SetOp Op | SetKey string | SetVal string | SelectNode string | SampleSet | SampleGet
  | RunButton | EnterKey | Finish nat number number fetch_result

definition pe_start :: "vite_env \<Rightarrow> pe_sys \<Rightarrow> pe_sys" where
  "pe_start env c = (case pe_begin env (page c) of None \<Rightarrow> c
     | Some (pe, r) \<Rightarrow> c\<lparr>page := pe, calls := calls c @ [page c]\<rparr>)"

inductive pe_step :: "vite_env \<Rightarrow> (string \<Rightarrow> string) \<Rightarrow> PageNodeMeta list \<Rightarrow> pe_sys \<Rightarrow> pe_event \<Rightarrow> pe_sys \<Rightarrow> bool"
  for env :: vite_env and tmsg :: "string \<Rightarrow> string" and ns :: "PageNodeMeta list" where
  set_op: "pe_step env tmsg ns c (SetOp op) (c\<lparr>page := page c\<lparr>pe_op := op\<rparr>\<rparr>)"
| set_key: "pe_step env tmsg ns c (SetKey k) (c\<lparr>page := page c\<lparr>pe_key := k\<rparr>\<rparr>)"
| set_val: "pe_op (page c) = OpSET \<Longrightarrow> pe_step env tmsg ns c (SetVal v) (c\<lparr>page := page c\<lparr>pe_val := v\<rparr>\<rparr>)"
| select: "v = [] \<or> v \<in> show_int ` node_id ` set ns \<Longrightarrow>
    pe_step env tmsg ns c (SelectNode v) (c\<lparr>page := pe_select v (page c)\<rparr>)"
| sample_s: "pe_step env tmsg ns c SampleSet (c\<lparr>page := sample_set (page c)\<rparr>)"
| sample_g: "pe_step env tmsg ns c SampleGet (c\<lparr>page := sample_get (page c)\<rparr>)"
| run_button: "run_button_enabled (page c) \<Longrightarrow> pe_step env tmsg ns c RunButton (pe_start env c)"
| enter_key: "pe_step env tmsg ns c EnterKey (pe_start env c)"
| finish: "k < length (calls c) \<Longrightarrow>
    pe_step env tmsg ns c (Finish k el now fr)
      (c\<lparr>page := pe_end tmsg (calls c ! k) el now fr (page c),
         calls := take k (calls c) @ drop (Suc k) (calls c)\<rparr>)"

inductive pe_run :: "vite_env \<Rightarrow> (string \<Rightarrow> string) \<Rightarrow> pe_sys \<Rightarrow> pe_event list \<Rightarrow> pe_sys \<Rightarrow> bool"
  for env :: vite_env and tmsg :: "string \<Rightarrow> string" where
  pe_Nil: "pe_run env tmsg c [] c"
| pe_Cons: "pe_step env tmsg ns c e c' \<Longrightarrow> pe_run env tmsg c' es c'' \<Longrightarrow> pe_run env tmsg c (e # es) c''"

inductive_simps pe_step_simps [simp]:
  "pe_step env tmsg ns c (SetOp op) c'"
  "pe_step env tmsg ns c (SetKey k) c'"
  "pe_step env tmsg ns c RunButton c'"
  "pe_step env tmsg ns c EnterKey c'"
  "pe_step env tmsg ns c (Finish k el now fr) c'"

inductive_simps pe_run_simps [simp]:
  "pe_run env tmsg c [] c'"
  "pe_run env tmsg c (e # es) c'"

definition pe_sys_init :: pe_sys where
  "pe_sys_init = \<lparr>page = pe_init, calls = []\<rparr>"

section \<open>Interfaces\<close>

interpretation rows_log: bounded_log add_row ex_rows 50
  by unfold_locales (simp_all add: add_row_def)

interpretation page_rows_log: bounded_log pe_add_row pe_history 100
  by unfold_locales (simp_all add: pe_add_row_def)

section \<open>Lemmas\<close>

lemma apiUrl_append: "apiUrl env ((CHR ''/'' # p) @ q) = apiUrl env (CHR ''/'' # p) @ q"
  by (simp add: apiUrl_def Let_def)

lemma key_url: "apiUrl env (key_path k) = apiUrl env ''/api/keys/'' @ encodeURIComponent k"
  using apiUrl_append [of env "''api/keys/''" "encodeURIComponent k"] by (simp add: key_path_def)

lemma scan_url:
  "apiUrl env (scan_path k) = apiUrl env ''/api/keys?prefix='' @ encodeURIComponent k @ ''&limit=50''"
  using apiUrl_append [of env "''api/keys?prefix=''" "encodeURIComponent k @ ''&limit=50''"]
  by (simp add: scan_path_def)

lemmas request_urls = execute_request_def pe_request_def key_url scan_url

text \<open>A row reports success exactly for a successful response with a readable body.\<close>

definition readable_ok :: "fetch_result \<Rightarrow> bool" where
  "readable_ok fr \<longleftrightarrow> (\<exists>res j. fr = Inr res \<and> body res = Inr j \<and> j \<noteq> JNull \<and> res_ok res)"

lemma get_prop_Inl_iff: "(\<exists>e. get_prop tmsg j k = Inl e) \<longleftrightarrow> j = JNull"
  by (cases "(tmsg, j, k)" rule: get_prop.cases) auto

lemma execute_result_Inl: "execute_result tmsg op j = Inl e \<Longrightarrow> j = JNull"
  by (cases "(tmsg, j, ''x'')" rule: get_prop.cases) (auto simp: execute_result_def split: if_splits)

lemma execute_result_JNull: "\<exists>e. execute_result tmsg op JNull = Inl e"
  by (simp add: execute_result_def)

lemma execute_row_ok: "xr_ok (execute_row tmsg op key el fr) \<longleftrightarrow> readable_ok fr"
  using execute_result_JNull [of tmsg op] execute_result_Inl [of tmsg op]
  by (fastforce simp: execute_row_def res_json_def readable_ok_def Let_def split: sum.splits)

lemma pe_row_ok: "rr_ok (pe_row tmsg op key el now fr) \<longleftrightarrow> readable_ok fr"
  by (auto simp: pe_row_def res_json_def readable_ok_def Let_def split: sum.splits)

subsection \<open>Resolved addresses\<close>

lemma split_on_Nil [simp]: "split_on d s \<noteq> []"
  by (cases s) simp_all

lemma split_on_append: "split_on d (a @ d # b) = split_on d a @ split_on d b"
  by (induction a) simp_all

lemma split_on_none: "d \<notin> set s \<Longrightarrow> split_on d s = [s]"
  by (induction s) auto

lemma split_on_last: "last (split_on d s) = [] \<Longrightarrow> s = [] \<or> last s = d"
proof (induction s)
  case (Cons c s)
  show ?case
  proof (cases "tl (split_on d s) = []")
    case True
    then have "split_on d s = [hd (split_on d s)]" by (metis list.exhaust_sel split_on_Nil)
    then show ?thesis using Cons True by (cases "s = []") (auto split: if_splits)
  next
    case False
    then show ?thesis using Cons by (cases "s = []") (auto simp: last_tl split: if_splits)
  qed
qed simp

lemma dot_segments_append: "ys \<noteq> [] \<Longrightarrow> dot_segments p (xs @ ys) = dot_segments (foldl dot_step p xs) ys"
proof (induction xs arbitrary: p)
  case (Cons x xs)
  then obtain y zs where "xs @ ys = y # zs" by (cases "xs @ ys") auto
  then show ?case using Cons by simp
qed simp

lemma origin_length_le:
  assumes "b = [] \<or> last b \<noteq> CHR ''/''"
  shows "origin_length (split_on (CHR ''/'') b @ [''api'', ''keys'', seg]) \<le> length (split_on (CHR ''/'') b)"
proof (cases "split_on (CHR ''/'') b")
  case (Cons x xs)
  show ?thesis
  proof (cases xs)
    case (Cons y ys)
    then have "y \<noteq> []" if "ys = []"
      using split_on_last [of "CHR ''/''" b] assms \<open>split_on (CHR ''/'') b = x # xs\<close> that by auto
    then show ?thesis using \<open>split_on (CHR ''/'') b = x # xs\<close> Cons by (cases ys) (auto simp: origin_length_def)
  qed (use Cons in \<open>simp add: origin_length_def\<close>)
qed simp

lemma origin_length_seg:
  "origin_length (split_on d b @ [''api'', ''keys'', seg]) = origin_length (split_on d b @ [''api'', ''keys'', []])"
  by (cases "split_on d b"; cases "tl (split_on d b)") (simp_all add: origin_length_def)

lemma encoded_dots:
  "single_dot (encodeURIComponent k) \<longleftrightarrow> k = ''.''" "double_dot (encodeURIComponent k) \<longleftrightarrow> k = ''..''"
proof -
  have dec: "\<forall>s \<in> {''.'', ''%2e'', ''%2E''}. uri_decode s = Some ''.''"
    "\<forall>s \<in> {''..'', ''.%2e'', ''.%2E'', ''%2e.'', ''%2E.'', ''%2e%2e'', ''%2e%2E'', ''%2E%2e'', ''%2E%2E''}. uri_decode s = Some ''..''"
    by code_simp+
  have enc: "encodeURIComponent ''.'' = ''.''" "encodeURIComponent ''..'' = ''..''" by code_simp+
  show "single_dot (encodeURIComponent k) \<longleftrightarrow> k = ''.''"
    using dec(1) uri_decode_encode [of k] enc(1) unfolding single_dot_def by (metis insertI1 option.inject)
  show "double_dot (encodeURIComponent k) \<longleftrightarrow> k = ''..''"
    using dec(2) uri_decode_encode [of k] enc(2) unfolding double_dot_def by (metis insertI1 option.inject)
qed

lemma plain_segments:
  "\<not> double_dot ''api''" "\<not> single_dot ''api''" "\<not> double_dot ''keys''" "\<not> single_dot ''keys''"
  "\<not> single_dot ''..''" "\<not> double_dot ''.''" "single_dot ''.''" "double_dot ''..''"
  by (simp_all add: single_dot_def double_dot_def)

lemma key_tail_resolved:
  "dot_segments r [''api'', ''keys'', e] =
     r @ (if double_dot e then [''api'', []] else if single_dot e then [''api'', ''keys'', []] else [''api'', ''keys'', e])"
  by (simp add: dot_step_def plain_segments butlast_append)

lemma drop_le_append: "n \<le> length xs \<Longrightarrow> drop n (xs @ ys) = drop n xs @ ys"
  by simp

text \<open>The directory of the gateway: the segments of the base after its origin.\<close>

definition key_root :: "vite_env \<Rightarrow> string list" where
  "key_root env = (let segs = split_on (CHR ''/'') (apiBase env) in
     foldl dot_step [] (drop (origin_length (segs @ [''api'', ''keys'', []])) segs))"

lemma key_address: "apiUrl env (key_path k) = apiBase env @ ''/api/keys/'' @ encodeURIComponent k"
  by (simp add: apiUrl_def key_path_def Let_def)

lemma key_path_resolved:
  assumes "set (apiBase env) \<inter> {CHR ''?'', CHR ''#''} = {}"
  shows "url_path (apiBase env @ ''/api/keys/'' @ encodeURIComponent k) = key_root env @
    (if k = ''.'' then [''api'', ''keys'', []] else if k = ''..'' then [''api'', []] else [''api'', ''keys'', encodeURIComponent k])"
proof -
  let ?e = "encodeURIComponent k" and ?b = "apiBase env"
  have delim: "CHR ''/'' \<notin> set ?e" "CHR ''?'' \<notin> set ?e" "CHR ''#'' \<notin> set ?e"
    using encodeURIComponent_no_delim [of k] by (auto simp: url_delims_def)
  have "CHR ''?'' \<notin> set (?b @ ''/api/keys/'' @ ?e)" "CHR ''#'' \<notin> set (?b @ ''/api/keys/'' @ ?e)"
    using assms delim by auto
  then have tw: "takeWhile (\<lambda>c. c \<noteq> CHR ''?'' \<and> c \<noteq> CHR ''#'') (?b @ ''/api/keys/'' @ ?e) = ?b @ ''/api/keys/'' @ ?e"
    unfolding takeWhile_eq_all_conv by metis
  have sp: "split_on (CHR ''/'') (?b @ ''/api/keys/'' @ ?e) = split_on (CHR ''/'') ?b @ [''api'', ''keys'', ?e]"
    using split_on_append [of "CHR ''/''" ?b "''api/keys/'' @ ?e"] split_on_append [of "CHR ''/''" "''api''" "''keys/'' @ ?e"]
      split_on_append [of "CHR ''/''" "''keys''" ?e] split_on_none [OF delim(1)]
    by simp
  have o: "origin_length (split_on (CHR ''/'') ?b @ [''api'', ''keys'', ?e]) \<le> length (split_on (CHR ''/'') ?b)"
    using apiBase_last [of env] by (intro origin_length_le) blast
  have "url_path (?b @ ''/api/keys/'' @ ?e) = dot_segments (key_root env) [''api'', ''keys'', ?e]"
    unfolding url_path_def key_root_def Let_def tw sp origin_length_seg [of _ _ ?e]
      drop_le_append [OF o [unfolded origin_length_seg [of _ _ ?e]]] dot_segments_append [OF list.distinct(2)] ..
  then show ?thesis unfolding key_tail_resolved encoded_dots by (rule trans) auto
qed

lemma scan_query:
  assumes "set (apiBase env) \<inter> {CHR ''?'', CHR ''#''} = {}"
  shows "url_query (req_url (execute_request env OpSCAN k v)) = ''prefix='' @ encodeURIComponent k @ ''&limit=50''"
proof -
  let ?q = "''prefix='' @ encodeURIComponent k @ ''&limit=50''"
  have url: "req_url (execute_request env OpSCAN k v) = (apiBase env @ ''/api/keys'') @ CHR ''?'' # ?q"
    by (simp add: execute_request_def apiUrl_def scan_path_def Let_def)
  have "CHR ''#'' \<notin> set (encodeURIComponent k)" using encodeURIComponent_no_delim [of k] by (auto simp: url_delims_def)
  then have "CHR ''#'' \<notin> set ((apiBase env @ ''/api/keys'') @ CHR ''?'' # ?q)" using assms by auto
  then have hash: "takeWhile (\<lambda>c. c \<noteq> CHR ''#'') ((apiBase env @ ''/api/keys'') @ CHR ''?'' # ?q) = (apiBase env @ ''/api/keys'') @ CHR ''?'' # ?q"
    unfolding takeWhile_eq_all_conv by blast
  have "CHR ''?'' \<notin> set (apiBase env @ ''/api/keys'')" using assms by auto
  then have "dropWhile (\<lambda>c. c \<noteq> CHR ''?'') ((apiBase env @ ''/api/keys'') @ CHR ''?'' # ?q) = CHR ''?'' # ?q"
    by (subst dropWhile_append2) auto
  then show ?thesis by (simp only: url_query_def url hash list.sel)
qed

section \<open>Properties\<close>

text \<open>
  C32 (roundtrip). A key survives its address: once the platform has resolved the address, the
  path of a GET or DEL ends in one segment below the collection of keys, and percent decoding it
  gives the key back, so that no key can leave its place or be taken for another one; the two
  exceptions are the keys \<^verbatim>\<open>.\<close> and \<^verbatim>\<open>..\<close>, which address the collection itself and the directory
  above it. In a SCAN every key survives, in the query.
\<close>

theorem key_survives_url:
  assumes "set (apiBase env) \<inter> {CHR ''?'', CHR ''#''} = {}"
  shows "\<exists>root. \<forall>k v. \<exists>seg. uri_decode seg = Some k \<and> set seg \<inter> url_delims = {} \<and>
     (\<forall>op \<in> {OpGET, OpDEL}. url_path (req_url (execute_request env op k v)) = root @
        (if k = ''.'' then [''api'', ''keys'', []] else if k = ''..'' then [''api'', []] else [''api'', ''keys'', seg])) \<and>
     url_query (req_url (execute_request env OpSCAN k v)) = ''prefix='' @ seg @ ''&limit=50''"
proof (intro exI conjI allI ballI)
  fix k v op
  show "uri_decode (encodeURIComponent k) = Some k" by (rule uri_decode_encode)
  show "set (encodeURIComponent k) \<inter> url_delims = {}" by (rule encodeURIComponent_no_delim)
  show "url_query (req_url (execute_request env OpSCAN k v)) = ''prefix='' @ encodeURIComponent k @ ''&limit=50''"
    by (rule scan_query [OF assms])
  assume "op \<in> {OpGET, OpDEL}"
  then have "req_url (execute_request env op k v) = apiBase env @ ''/api/keys/'' @ encodeURIComponent k"
    by (auto simp: execute_request_def key_address)
  then show "url_path (req_url (execute_request env op k v)) = key_root env @
      (if k = ''.'' then [''api'', ''keys'', []] else if k = ''..'' then [''api'', []] else [''api'', ''keys'', encodeURIComponent k])"
    using key_path_resolved [OF assms] by simp
qed

theorem key_survives_url_witness:
  "let env = \<lparr>VITE_API_BASE_URL = None, VITE_WS_BASE_URL = None\<rparr> in
   url_path (req_url (execute_request env OpDEL ''a/b'' [])) \<noteq> url_path (req_url (execute_request env OpDEL ''a'' []))"
proof -
  let ?env = "\<lparr>VITE_API_BASE_URL = None, VITE_WS_BASE_URL = None\<rparr>"
  have "set (apiBase ?env) \<inter> {CHR ''?'', CHR ''#''} = {}" by (simp add: apiBase_def rawApiBase_def)
  from key_survives_url [OF this] obtain root where r: "\<forall>k v. \<exists>seg. uri_decode seg = Some k \<and> set seg \<inter> url_delims = {} \<and>
     (\<forall>op \<in> {OpGET, OpDEL}. url_path (req_url (execute_request ?env op k v)) = root @
        (if k = ''.'' then [''api'', ''keys'', []] else if k = ''..'' then [''api'', []] else [''api'', ''keys'', seg])) \<and>
     url_query (req_url (execute_request ?env OpSCAN k v)) = ''prefix='' @ seg @ ''&limit=50''" ..
  obtain seg seg' where "uri_decode seg = Some ''a/b''" "uri_decode seg' = Some ''a''"
    "url_path (req_url (execute_request ?env OpDEL ''a/b'' [])) = root @ [''api'', ''keys'', seg]"
    "url_path (req_url (execute_request ?env OpDEL ''a'' [])) = root @ [''api'', ''keys'', seg']"
    using r [rule_format, of "''a/b''" "[]"] r [rule_format, of "''a''" "[]"] by auto
  then show ?thesis by (auto simp: Let_def)
qed

text \<open>
  The two explorers implement one protocol: without a chosen node they send
  the same request for the same trimmed inputs, and each reports a command as successful
  exactly when the gateway answered it with a success status and a readable body.
\<close>

theorem explorers_agree:
  "pe_request env op k v None = execute_request env op k v \<and>
   xr_ok (execute_row tmsg op k el fr) = readable_ok fr \<and>
   rr_ok (pe_row tmsg op k el now fr) = readable_ok fr"
  by (cases op) (simp_all add: execute_row_ok pe_row_ok pe_request_def execute_request_def node_query_def)

text \<open>
  A command that starts adds exactly one row, in front, when its request has
  ended in any way at all, and a view keeps the fifty most recently ended commands in order; a
  command without a key, unless it is a scan, sends nothing.
\<close>

theorem commands_leave_rows:
  "(execute_begin env ex = None \<longleftrightarrow> ex_key ex = [] \<and> ex_op ex \<noteq> OpSCAN) \<and>
   ex_rows (fold (\<lambda>(ex0, el, fr). execute_end tmsg ex0 el fr) ends explorer_init) =
     take 50 (rev (map (\<lambda>(ex0, el, fr). execute_row tmsg (ex_op ex0) (ex_key ex0) el fr) ends))"
proof -
  let ?row = "\<lambda>(ex0, el, fr). execute_row tmsg (ex_op ex0) (ex_key ex0) el fr"
  have "fold (\<lambda>(ex0, el, fr). execute_end tmsg ex0 el fr) ends explorer_init =
      fold add_row (map ?row ends) explorer_init"
    by (simp add: fold_map comp_def execute_end_def [abs_def] case_prod_unfold)
  moreover have "length (ex_rows explorer_init) \<le> 50" "ex_rows explorer_init = []"
    by (simp_all add: explorer_init_def)
  ultimately show ?thesis using rows_log.entries_fold [of explorer_init "map ?row ends"]
    by (simp add: execute_begin_def execute_enabled_def)
qed

subsection \<open>The page with commands in flight\<close>

definition pe_inv :: "pe_sys \<Rightarrow> bool" where
  "pe_inv c \<longleftrightarrow> (pe_loading (page c) \<longrightarrow> calls c \<noteq> []) \<and> length (pe_history (page c)) \<le> 100 \<and>
     (\<forall>pe \<in> set (calls c). canRun pe)"

lemma pe_start_inv [inv_intros]: "pe_inv c \<Longrightarrow> pe_inv (pe_start env c)"
  by (auto simp: pe_inv_def pe_start_def pe_begin_def split: if_splits)

lemma pe_step_inv: "pe_step env tmsg ns c e c' \<Longrightarrow> pe_inv c \<Longrightarrow> pe_inv c'"
proof (induction rule: pe_step.induct)
  case (finish k c el now fr)
  then show ?case using page_rows_log.push_le_cap
    by (auto simp: pe_inv_def pe_end_def dest: in_set_takeD in_set_dropD)
next
  case (run_button c)
  then show ?case by (auto intro: inv_intros)
next
  case (enter_key c)
  then show ?case by (auto intro: inv_intros)
qed (auto simp: pe_inv_def pe_select_def sample_set_def sample_get_def)

lemma pe_run_inv: "pe_run env tmsg c es c' \<Longrightarrow> pe_inv c \<Longrightarrow> pe_inv c'"
  by (induction rule: pe_run.induct) (auto intro: pe_step_inv)

text \<open>
  C33 (invariant). However the page is used, the loading flag is set only while a command is in
  flight, every command in flight had a key or was a scan when it started, and the history
  keeps within its hundred rows.
\<close>

theorem page_explorer_invariant:
  assumes "pe_run env tmsg pe_sys_init es c"
  shows "(pe_loading (page c) \<longrightarrow> calls c \<noteq> []) \<and> length (pe_history (page c)) \<le> 100 \<and>
    (\<forall>pe \<in> set (calls c). pe_op pe = OpSCAN \<or> trim (pe_key pe) \<noteq> [])"
proof -
  have "pe_inv pe_sys_init" by (simp add: pe_inv_def pe_sys_init_def pe_init_def)
  from pe_run_inv [OF assms this] show ?thesis by (auto simp: pe_inv_def canRun_def split: if_splits)
qed

theorem page_explorer_invariant_witness:
  "let env = \<lparr>VITE_API_BASE_URL = None, VITE_WS_BASE_URL = None\<rparr>;
       c = pe_start env (pe_sys_init\<lparr>page := pe_init\<lparr>pe_op := OpSCAN\<rparr>\<rparr>) in
   pe_loading (page c) \<and> calls c \<noteq> []"
proof -
  let ?env = "\<lparr>VITE_API_BASE_URL = None, VITE_WS_BASE_URL = None\<rparr>"
  let ?c = "pe_start ?env (pe_sys_init\<lparr>page := pe_init\<lparr>pe_op := OpSCAN\<rparr>\<rparr>)"
  have "pe_run ?env (\<lambda>k. k) pe_sys_init [SetOp OpSCAN, EnterKey] ?c" by (simp add: pe_sys_init_def)
  moreover have "pe_loading (page ?c)"
    by (simp add: pe_start_def pe_begin_def canRun_def pe_sys_init_def pe_init_def)
  ultimately show ?thesis using page_explorer_invariant [of ?env "\<lambda>k. k" "[SetOp OpSCAN, EnterKey]" ?c]
    by (simp add: Let_def)
qed

text \<open>
  The converse fails: the Enter key starts a second command while one is running,
  and when the first of the two ends the page shows that nothing is running and offers its
  button although a command is still in flight.
\<close>

theorem loading_flag_lost:
  assumes "canRun (page c)" "calls c = []"
  shows "\<exists>c'. pe_run env tmsg c [EnterKey, EnterKey, Finish 0 el now fr] c' \<and>
     \<not> pe_loading (page c') \<and> run_button_enabled (page c') \<and> calls c' \<noteq> []"
  using assms
  by (auto simp: pe_start_def pe_begin_def canRun_def pe_end_def pe_add_row_def run_button_enabled_def
      split: if_splits)

theorem loading_flag_lost_witness:
  "\<exists>c'. pe_run \<lparr>VITE_API_BASE_URL = None, VITE_WS_BASE_URL = None\<rparr> (\<lambda>k. k)
      (pe_sys_init\<lparr>page := pe_init\<lparr>pe_op := OpSCAN\<rparr>\<rparr>) [EnterKey, EnterKey, Finish 0 0 0 fr_ack] c' \<and>
     \<not> pe_loading (page c') \<and> run_button_enabled (page c') \<and> calls c' \<noteq> []"
  by (rule loading_flag_lost) (simp_all add: canRun_def pe_sys_init_def)

end
