(* ===== verification/Console.thy ===== *)
theory Console
  imports Connection CommandPalette TraceRunner RaftViews Explorer
begin

text \<open>
  The console as a whole: the metrics stream of \<^verbatim>\<open>hooks.ts\<close>, the store of \<^verbatim>\<open>store.ts\<close> with
  its kill and restart requests in flight, and the notification centre of \<^verbatim>\<open>App.tsx\<close> all
  work on one store. They interleave freely: the environment chooses which socket event,
  answer, click or render comes next. A render runs the two effects of the notification centre
  on the values it sees, so several changes may reach them at once. When \<open>App\<close> is mounted, its
  effects run in the order of the source: the stream is set up, the centre reports that it is
  online, and the two effects run for the first time; React's strict mode and a reload of the
  module clean up the stream first and then run them all again.
\<close>

section \<open>State and steps\<close>

record console =
  stream :: hook
  actions :: "pending list"
  bell_centre :: centre

abbreviation the_store :: "console \<Rightarrow> ClusterState" where
  "the_store c \<equiv> fd_store (feed_of (stream c))"

definition on_store :: "(ClusterState \<Rightarrow> ClusterState) \<Rightarrow> hook \<Rightarrow> hook" where
  "on_store f h = h\<lparr>feed_of := (feed_of h)\<lparr>fd_store := f (fd_store (feed_of h))\<rparr>\<rparr>"

datatype console_event =
    Mounts "nat \<Rightarrow> string \<times> number" "nat \<Rightarrow> string \<times> number" "nat \<Rightarrow> string \<times> number"
  | Stream hook_event
  | Click action int
  | Answer nat fetch_result
  | Render "nat \<Rightarrow> string \<times> number" "nat \<Rightarrow> string \<times> number"
  | TogglePanel
  | ClosePanel
  | ClearPanel

definition render_effects ::
  "(nat \<Rightarrow> string \<times> number) \<Rightarrow> (nat \<Rightarrow> string \<times> number) \<Rightarrow> ClusterState \<Rightarrow> centre \<Rightarrow> centre"
where
  "render_effects st1 st2 s b = nodes_effect st2 (nodes s) (ws_effect st1 (wsStatus s) b)"

text \<open>Setting up the stream, after a cleanup where it was set up already.\<close>

definition remount :: "hook \<Rightarrow> hook" where
  "remount h = mount (if live h then unmount (cur h) h else h)"

definition mount_effects ::
  "(nat \<Rightarrow> string \<times> number) \<Rightarrow> (nat \<Rightarrow> string \<times> number) \<Rightarrow> (nat \<Rightarrow> string \<times> number) \<Rightarrow> ClusterState \<Rightarrow> centre \<Rightarrow> centre"
where
  "mount_effects st0 st1 st2 s b = render_effects st1 st2 s (online_effect st0 b)"

inductive console_step :: "(string \<Rightarrow> string) \<Rightarrow> console \<Rightarrow> console_event \<Rightarrow> console \<Rightarrow> bool"
  for tmsg :: "string \<Rightarrow> string" where
  mounts: "console_step tmsg c (Mounts st0 st1 st2)
    (c\<lparr>stream := remount (stream c), bell_centre := mount_effects st0 st1 st2 (the_store c) (bell_centre c)\<rparr>)"
| stream_event: "e \<noteq> Mount \<Longrightarrow> e \<noteq> Unmount \<Longrightarrow> hook_step (stream c) e = Some h \<Longrightarrow>
    console_step tmsg c (Stream e) (c\<lparr>stream := h\<rparr>)"
| click: "console_step tmsg c (Click a i)
    (c\<lparr>stream := on_store (begin_action a i) (stream c),
       actions := actions c @ [\<lparr>act = a, target = i, previous = the_store c\<rparr>]\<rparr>)"
| answer: "k < length (actions c) \<Longrightarrow> console_step tmsg c (Answer k fr)
    (c\<lparr>stream := on_store (settle_action tmsg (actions c ! k) fr) (stream c),
       actions := take k (actions c) @ drop (Suc k) (actions c)\<rparr>)"
| render: "console_step tmsg c (Render st1 st2)
    (c\<lparr>bell_centre := render_effects st1 st2 (the_store c) (bell_centre c)\<rparr>)"
| toggle_panel: "console_step tmsg c TogglePanel (c\<lparr>bell_centre := toggleNotifications (bell_centre c)\<rparr>)"
| close_panel: "console_step tmsg c ClosePanel (c\<lparr>bell_centre := setNotificationsOpen False (bell_centre c)\<rparr>)"
| clear_panel: "console_step tmsg c ClearPanel (c\<lparr>bell_centre := clearNotifications (bell_centre c)\<rparr>)"

inductive_simps console_step_simps [simp]:
  "console_step tmsg c (Mounts st0 st1 st2) c'"
  "console_step tmsg c (Stream e) c'"
  "console_step tmsg c (Click a i) c'"
  "console_step tmsg c (Answer k fr) c'"
  "console_step tmsg c (Render st1 st2) c'"
  "console_step tmsg c TogglePanel c'"
  "console_step tmsg c ClosePanel c'"
  "console_step tmsg c ClearPanel c'"

inductive console_run :: "(string \<Rightarrow> string) \<Rightarrow> console \<Rightarrow> console_event list \<Rightarrow> console \<Rightarrow> bool"
  for tmsg :: "string \<Rightarrow> string" where
  console_Nil: "console_run tmsg c [] c"
| console_Cons: "console_step tmsg c e c' \<Longrightarrow> console_run tmsg c' es c'' \<Longrightarrow> console_run tmsg c (e # es) c''"

inductive_simps console_run_simps [simp]:
  "console_run tmsg c [] c'"
  "console_run tmsg c (e # es) c'"

definition console_init :: console where
  "console_init = \<lparr>stream = hook_init, actions = [],
     bell_centre = centre_init (wsStatus initialState) (nodes initialState)\<rparr>"

section \<open>The stream keeps the store's invariant\<close>

lemma on_store_fields [simp]:
  "fd_store (feed_of (on_store f h)) = f (fd_store (feed_of h))"
  "wsRef (on_store f h) = wsRef h" "nsock (on_store f h) = nsock h" "socks (on_store f h) = socks h"
  "ninst (on_store f h) = ninst h" "insts (on_store f h) = insts h" "armed (on_store f h) = armed h"
  "live (on_store f h) = live h"
  by (simp_all add: on_store_def live_def)

lemma on_store_inv:
  "hook_inv h \<Longrightarrow> wsStatus (f (fd_store (feed_of h))) = wsStatus (fd_store (feed_of h)) \<Longrightarrow> hook_inv (on_store f h)"
  by (simp add: inv_defs cong: ready.case_cong)

abbreviation hstore :: "hook \<Rightarrow> ClusterState" where
  "hstore h \<equiv> fd_store (feed_of h)"

lemma hstore_frame [simp]:
  "hstore (set_rs k r h) = hstore h" "hstore (close_ref h) = hstore h"
  "hstore (set_status st h) = setStatus st (hstore h)" "hstore (pollCluster h) = hstore h"
  by (auto simp: set_rs_def close_ref_def sock_close_def set_status_def pollCluster_def split: option.split)

lemma consumeSnapshot_store_inv: "store_inv (fd_store f) \<Longrightarrow> store_inv (fd_store (consumeSnapshot now d f))"
  by (simp add: consumeSnapshot_def Let_def inv_intros split: option.split prod.split)

lemma connect_store_inv: "store_inv (hstore h) \<Longrightarrow> store_inv (hstore (connect i h))"
  by (simp add: connect_def Let_def inv_intros)

lemma onmessage_store_inv: "store_inv (hstore h) \<Longrightarrow> store_inv (hstore (onmessage now p h))"
  by (simp add: onmessage_def consumeSnapshot_store_inv split: option.split)

lemma hook_step_store_inv:
  assumes "hook_step h e = Some h'" "store_inv (hstore h)"
  shows "store_inv (hstore h')"
proof (cases e)
  case Mount
  with assms show ?thesis using connect_store_inv
    by (auto simp: mount_def Let_def split: if_splits)
next
  case Unmount
  with assms show ?thesis by (auto simp: unmount_def Let_def split: if_splits option.splits)
next
  case (SockOpen k)
  with assms show ?thesis by (auto simp: onopen_def inv_intros split: if_splits)
next
  case (SockMessage k now p)
  with assms show ?thesis by (auto simp: onmessage_store_inv split: if_splits)
next
  case (SockClose k failed)
  with assms show ?thesis by (auto simp: onclose_def onerror_def Let_def inv_intros split: if_splits)
next
  case (TimerFire t)
  with assms show ?thesis using connect_store_inv by (auto split: option.splits)
next
  case PollTick
  with assms show ?thesis by (auto simp: poll_tick_def split: if_splits option.splits)
next
  case (PollDone now p)
  with assms show ?thesis by (auto simp: poll_answer_def onmessage_store_inv split: if_splits)
qed

definition console_inv :: "console \<Rightarrow> bool" where
  "console_inv c \<longleftrightarrow> hook_inv (stream c) \<and> store_inv (the_store c) \<and>
     (\<forall>p \<in> set (actions c). store_inv (previous p)) \<and> length (notifications (bell_centre c)) \<le> 60"

lemma remount_run: "hook_run h (if live h then [Unmount, Mount] else [Mount]) = Some (remount h)"
proof -
  have "\<not> live (unmount (cur h) h)" if "live h"
    using that by (simp add: live_def unmount_def close_ref_def sock_close_def set_rs_def Let_def split: option.split)
  then show ?thesis by (simp add: remount_def)
qed

lemma remount_inv: "hook_inv h \<Longrightarrow> hook_inv (remount h)"
  using remount_run hook_run_inv by blast

lemma hook_run_store_inv: "hook_run h es = Some h' \<Longrightarrow> store_inv (hstore h) \<Longrightarrow> store_inv (hstore h')"
  by (induction es arbitrary: h) (auto simp: bind_eq_Some_conv dest: hook_step_store_inv)

lemma remount_store_inv: "store_inv (hstore h) \<Longrightarrow> store_inv (hstore (remount h))"
  using remount_run hook_run_store_inv by blast

lemma centre_bounded:
  assumes "length (notifications b) \<le> 60"
  shows "length (notifications (online_effect st0 b)) \<le> 60" "length (notifications (render_effects st1 st2 s b)) \<le> 60"
  using assms by (simp_all add: online_effect_def render_effects_def nodes_effect_def ws_effect_def effects_bounded)

lemma console_step_inv: "console_step tmsg c e c' \<Longrightarrow> console_inv c \<Longrightarrow> console_inv c'"
proof (induction rule: console_step.induct)
  case (mounts c st0 st1 st2)
  then show ?case using remount_inv remount_store_inv
    by (simp add: console_inv_def mount_effects_def centre_bounded)
next
  case (stream_event e c h)
  then show ?case using hook_step_inv hook_step_store_inv by (auto simp: console_inv_def)
next
  case (click c a i)
  moreover have "wsStatus (begin_action a i (the_store c)) = wsStatus (the_store c)"
    by (cases a) (simp_all add: begin_action_def)
  ultimately show ?case by (auto simp: console_inv_def intro!: on_store_inv intro: inv_intros)
next
  case (answer k c fr)
  moreover have "wsStatus (settle_action tmsg (actions c ! k) fr (the_store c)) = wsStatus (the_store c)"
    by (simp add: settle_action_eq)
  ultimately show ?case
    by (auto simp: console_inv_def intro!: on_store_inv intro: inv_intros dest: in_set_takeD in_set_dropD)
next
  case (render c st1 st2)
  then show ?case by (simp add: console_inv_def centre_bounded)
qed (simp_all add: console_inv_def toggleNotifications_def setNotificationsOpen_def clearNotifications_def Let_def)

lemma console_run_inv: "console_run tmsg c es c' \<Longrightarrow> console_inv c \<Longrightarrow> console_inv c'"
  by (induction rule: console_run.induct) (auto intro: console_step_inv)

lemma console_init_inv: "console_inv console_init"
  using hook_init_inv store_inv_initial
  by (simp add: console_inv_def console_init_def hook_init_def centre_init_def)

lemma render_synced:
  "prevWsStatus (render_effects st1 st2 s b) = wsStatus s"
  "prevNodes (render_effects st1 st2 s b) = nodes s"
  "nodesInitialized (render_effects st1 st2 s b)"
  by (simp_all add: render_effects_def nodes_effect_def ws_effect_def)

lemma console_run_append:
  "console_run tmsg c (es @ fs) c'' \<longleftrightarrow> (\<exists>c'. console_run tmsg c es c' \<and> console_run tmsg c' fs c'')"
  by (induction es arbitrary: c) auto

section \<open>Properties\<close>

text \<open>
  C7 (invariant). Whatever the interleaving of socket events, polls, clicks, answers and
  renders: a node the user forced down is shown neither healthy nor as leader; a mounted stream
  that is not connected has exactly one reconnection armed and the status shown says closed;
  and the history and the notifications keep within their bounds.
\<close>

theorem console_invariant:
  assumes "console_run tmsg console_init es c"
  shows "(\<forall>n \<in> set (nodes (the_store c)). node_id n \<in> set (forcedDownNodeIds (the_store c)) \<longrightarrow>
       \<not> healthy n \<and> \<not> is_leader n) \<and>
    (live (stream c) \<and> rs (socks (stream c) (newest (stream c))) = CLOSED \<longrightarrow>
       length (armed (stream c)) = 1 \<and> wsStatus (the_store c) = WsClosed) \<and>
    length (history (the_store c)) \<le> 120 \<and> length (notifications (bell_centre c)) \<le> 60"
proof -
  have "console_inv c" by (rule console_run_inv [OF assms console_init_inv])
  then show ?thesis by (auto simp: console_inv_def store_inv_def hook_inv_def live_ok_def)
qed

abbreviation no_stamp :: "nat \<Rightarrow> string \<times> number" where
  "no_stamp \<equiv> \<lambda>_. ([], 0)"

lemma mounted_facts:
  "remount hook_init = mount hook_init" "nsock (mount hook_init) = 1" "rs (socks (mount hook_init) 0) = CONNECTING"
  "live (mount hook_init)" "hstore (mount hook_init) = setStatus WsConnecting initialState"
  by (simp_all add: remount_def hook_init_def live_def mount_def connect_def pollCluster_def Let_def set_status_def)

theorem console_invariant_witness:
  "\<exists>c. console_run (\<lambda>k. k) console_init
       [Mounts no_stamp no_stamp no_stamp, Stream (SockClose 0 True), Click Kill 1] c \<and>
     length (armed (stream c)) = 1 \<and> wsStatus (the_store c) = WsClosed"
proof -
  let ?es = "[Mounts no_stamp no_stamp no_stamp, Stream (SockClose 0 True), Click Kill 1]"
  obtain c where c: "console_run (\<lambda>k. k) console_init ?es c"
    and "live (stream c)" "rs (socks (stream c) (newest (stream c))) = CLOSED"
    by (simp add: mounted_facts(1) console_init_def) (simp add: hook_init_def live_def mount_def connect_def pollCluster_def Let_def
        onerror_def close_ref_def sock_close_def set_rs_def set_status_def onclose_def on_store_def)
  with console_invariant [OF c] show ?thesis by blast
qed

text \<open>
  C22 (safety). The user hears of an outage: when the stream of a mounted console closes, the
  next render puts the closing message on top of the messages it found, unless the centre had
  already seen the stream closed.
\<close>

theorem outage_is_notified:
  assumes "console_run tmsg console_init es c" "live (stream c)"
    and "rs (socks (stream c) (newest (stream c))) \<noteq> CLOSED"
    and "prevWsStatus (bell_centre c) \<noteq> WsClosed" "prevNodes (bell_centre c) = nodes (the_store c)"
    and "distinct (map node_id (nodes (the_store c)))"
    and "console_run tmsg c [Stream (SockClose (newest (stream c)) failed), Render st1 st2] c'"
  shows "wsStatus (the_store c') = WsClosed \<and> length (armed (stream c')) = 1 \<and>
    texts (bell_centre c') = take 60 (msg ''Gateway Connection Closed''
      ''Live stream is offline. Metrics will use fallback behavior.'' NError # texts (bell_centre c))"
proof -
  have inv: "console_inv c" by (rule console_run_inv [OF assms(1) console_init_inv])
  let ?k = "newest (stream c)"
  obtain h where h: "hook_step (stream c) (SockClose ?k failed) = Some h"
    and c': "c' = c\<lparr>stream := h, bell_centre := render_effects st1 st2 (hstore h) (bell_centre c)\<rparr>"
    using assms(7) by auto
  have hk: "0 < nsock (stream c)" "owner (socks (stream c) ?k) = cur (stream c)"
    "\<not> disposed (insts (stream c) (cur (stream c)))" "wsRef (stream c) = Some ?k"
    using inv assms(2) by (auto simp: console_inv_def inv_defs live_def)
  have st: "hstore h = setStatus WsClosed (the_store c)" "live h" "rs (socks h (newest h)) = CLOSED"
    using h hk assms(2,3)
    by (auto simp: onclose_def onerror_def close_ref_def sock_close_def Let_def live_def split: if_splits)
  have "hook_inv h" using hook_step_inv [OF _ h] inv by (simp only: console_inv_def)
  then have "length (armed h) = 1" using st by (auto simp: hook_inv_def live_ok_def)
  moreover have "texts (bell_centre c') = take 60 (ws_messages (prevWsStatus (bell_centre c)) WsClosed @ texts (bell_centre c))"
  proof -
    let ?b = "ws_effect st1 WsClosed (bell_centre c)"
    have b: "texts ?b = take 60 (rev (ws_messages (prevWsStatus (bell_centre c)) WsClosed) @ texts (bell_centre c))"
      using push_all_texts inv by (simp add: ws_effect_def console_inv_def)
    have "prevNodes ?b = nodes (the_store c)" using assms(5) by (simp add: ws_effect_def)
    moreover have "node_messages (nodes (the_store c)) (nodes (the_store c)) = []"
      by (rule same_nodes_quiet [OF assms(6)])
    ultimately have "texts (nodes_effect st2 (nodes (the_store c)) ?b) = texts ?b"
      by (simp add: nodes_effect_def push_all_def)
    then show ?thesis using b by (simp add: c' render_effects_def st ws_messages_def)
  qed
  ultimately show ?thesis using assms(4) by (simp add: c' st ws_messages_def)
qed

theorem outage_is_notified_witness:
  "\<exists>c'. console_run (\<lambda>k. k) console_init [Mounts no_stamp no_stamp no_stamp,
       Stream (SockClose 0 True), Render no_stamp no_stamp] c' \<and>
     map msg_title (texts (bell_centre c')) = [''Gateway Connection Closed'', ''Notification Center Online'']"
proof -
  define c where "c = console_init\<lparr>stream := mount hook_init,
     bell_centre := mount_effects no_stamp no_stamp no_stamp initialState (bell_centre console_init)\<rparr>"
  have run: "console_run (\<lambda>k. k) console_init [Mounts no_stamp no_stamp no_stamp] c"
    by (simp add: c_def mounted_facts(1) [symmetric] console_init_def) (simp add: hook_init_def)
  obtain h where h: "hook_step (stream c) (SockClose 0 True) = Some h"
    by (simp add: c_def mounted_facts Let_def)
  let ?c' = "c\<lparr>stream := h, bell_centre := render_effects no_stamp no_stamp (hstore h) (bell_centre c)\<rparr>"
  have c': "console_run (\<lambda>k. k) c [Stream (SockClose 0 True), Render no_stamp no_stamp] ?c'"
    using h by (simp del: hook_step.simps)
  have new: "newest (stream c) = 0" by (simp add: c_def mounted_facts)
  have pre: "live (stream c)" "rs (socks (stream c) (newest (stream c))) \<noteq> CLOSED"
    "prevWsStatus (bell_centre c) \<noteq> WsClosed" "prevNodes (bell_centre c) = nodes (the_store c)"
    "distinct (map node_id (nodes (the_store c)))"
    by (simp_all add: new c_def mounted_facts mount_effects_def render_synced initialState_def initial_node_def)
  have "texts (bell_centre ?c') = take 60 (msg ''Gateway Connection Closed''
      ''Live stream is offline. Metrics will use fallback behavior.'' NError # texts (bell_centre c))"
    using outage_is_notified [OF run pre c' [folded new]] by blast
  moreover have "map msg_title (texts (bell_centre c)) = [''Notification Center Online'']"
    by (simp add: c_def mount_effects_def render_effects_def ws_effect_def nodes_effect_def online_effect_def push_all_def
        ws_messages_def pushNotification_def add_item_def msg_def console_init_def centre_init_def initialState_def message.truncate_def)
  ultimately have tx: "map msg_title (texts (bell_centre ?c')) = [''Gateway Connection Closed'', ''Notification Center Online'']"
    by (simp add: msg_def take_map [symmetric] del: map_map)
  have "console_run (\<lambda>k. k) console_init ([Mounts no_stamp no_stamp no_stamp] @
      [Stream (SockClose 0 True), Render no_stamp no_stamp]) ?c'"
    using run c' console_run_append by blast
  then show ?thesis unfolding append_Cons append_Nil by (intro exI conjI) (assumption, rule tx)
qed

text \<open>
  C21 (safety). Killing the leader stops writes at once in the views: with one node marked as
  leader, a request trace started after the kill fails at the leader's log and sends nothing,
  and the notification centre reports that the leader is unavailable.
\<close>

theorem leader_kill_blocks_trace:
  assumes "n \<in> set (nodes s)" "is_leader n" "healthy n" "\<forall>m \<in> set (nodes s). is_leader m \<longrightarrow> node_id m = node_id n"
    and "trim (traceKey tr) \<noteq> []" "\<not> traceRunning tr"
  shows "let ns = nodes (killNode_begin (node_id n) s); (tr', reqs) = runTrace env ns el t fr tr in
     reqs = [] \<and> statuses tr' = [StSuccess, StSuccess, StError, StIdle, StIdle] \<and>
     map msg_title (leader_messages (nodes s) ns) = [''Leader Unavailable'']"
proof -
  let ?ns = "nodes (killNode_begin (node_id n) s)"
  have "\<not> is_leader m" if "m \<in> set ?ns" for m
    using that assms(4) by (auto simp: killNode_begin_def split: if_splits)
  then have none: "leader ?ns = None" by (simp add: leader_None)
  have "leader (nodes s) \<noteq> None" using assms(1-3) by (auto simp: leader_None)
  then have "map msg_title (leader_messages (nodes s) ?ns) = [''Leader Unavailable'']"
    using none by (auto simp: leader_messages_def Let_def msg_def)
  moreover obtain tr' reqs where eq: "runTrace env ?ns el t fr tr = (tr', reqs)" by fastforce
  moreover have "statuses tr' = [StSuccess, StSuccess, StError, StIdle, StIdle]" "reqs = []"
    using runTrace_run(2,4) [OF assms(5,6), of env ?ns el t fr] none eq
    by (simp_all add: expected_statuses_def)
  ultimately show ?thesis by (simp add: Let_def)
qed

theorem leader_kill_blocks_trace_witness:
  "snd (runTrace \<lparr>VITE_API_BASE_URL = None, VITE_WS_BASE_URL = None\<rparr> (nodes (killNode_begin 1 initialState))
     (\<lambda>_. 0) 0 fr_ack initialTrace) = []"
proof -
  let ?n = "initial_node 1 ''vaultkv-node1'' 7379 True 120"
  have k: "trim (traceKey initialTrace) \<noteq> []" "\<not> traceRunning initialTrace" by code_simp+
  have "?n \<in> set (nodes initialState)" "is_leader ?n" "healthy ?n"
    "\<forall>m \<in> set (nodes initialState). is_leader m \<longrightarrow> node_id m = node_id ?n"
    by (simp_all add: initialState_def initial_node_def)
  from leader_kill_blocks_trace [OF this k, of "\<lparr>VITE_API_BASE_URL = None, VITE_WS_BASE_URL = None\<rparr>" "\<lambda>_. 0" 0 fr_ack]
  show ?thesis by (simp add: initial_node_def Let_def case_prod_unfold)
qed

end
