(* ===== verification/Console_Keys.thy ===== *)
theory Console_Keys
  imports Console
begin

text \<open>
  The keys of the lists the console shows: the identifiers of the nodes, which come with the
  snapshots, and those of the notifications, which the platform makes up
  (\<^verbatim>\<open>pushNotification\<close> of \<^verbatim>\<open>App.tsx\<close>). Every operation of the console keeps them different:
  masking, optimistic updates and roll backs keep the identifiers of a node list, the effects
  give every notification an identifier of its own, and the bound of the centre only drops
  entries.
\<close>

section \<open>What the environment provides\<close>

fun stamps_of :: "console_event \<Rightarrow> (nat \<Rightarrow> string \<times> number) list" where
  "stamps_of (Mounts st0 st1 st2) = [st0, st1, st2]"
| "stamps_of (Render st1 st2) = [st1, st2]"
| "stamps_of _ = []"

abbreviation stamp_ids :: "(nat \<Rightarrow> string \<times> number) \<Rightarrow> string set" where
  "stamp_ids st \<equiv> range (\<lambda>k. fst (st k))"

text \<open>The platform never makes up the same identifier twice.\<close>

definition fresh_stamps :: "(nat \<Rightarrow> string \<times> number) list \<Rightarrow> bool" where
  "fresh_stamps sts \<longleftrightarrow> (\<forall>st \<in> set sts. inj (\<lambda>k. fst (st k))) \<and>
     sorted_wrt (\<lambda>st st'. stamp_ids st \<inter> stamp_ids st' = {}) sts"

abbreviation different_ids :: "NodeMeta list \<Rightarrow> bool" where
  "different_ids ns \<equiv> distinct (map node_id ns)"

text \<open>The nodes of a snapshot have different identifiers.\<close>

definition sound_snapshot :: "NodeMeta snapshot option \<Rightarrow> bool" where
  "sound_snapshot p \<longleftrightarrow> (\<forall>d ns. p = Some d \<longrightarrow> sn_nodes d = Some ns \<longrightarrow> different_ids ns)"

fun sound_event :: "console_event \<Rightarrow> bool" where
  "sound_event (Stream (SockMessage k now p)) = sound_snapshot p"
| "sound_event (Stream (PollDone now p)) = sound_snapshot p"
| "sound_event _ = True"

section \<open>Node identifiers\<close>

lemma consumeSnapshot_ids:
  "sound_snapshot (Some d) \<Longrightarrow> different_ids (nodes (fd_store f)) \<Longrightarrow> different_ids (nodes (fd_store (consumeSnapshot now d f)))"
  by (auto simp: consumeSnapshot_def sound_snapshot_def Let_def split: option.split prod.split)

lemma onmessage_ids:
  "sound_snapshot p \<Longrightarrow> different_ids (nodes (hstore h)) \<Longrightarrow> different_ids (nodes (hstore (onmessage now p h)))"
  by (cases p) (simp_all add: onmessage_def consumeSnapshot_ids)

lemma nodes_frame [simp]:
  "nodes (hstore (connect i h)) = nodes (hstore h)" "nodes (hstore (mount h)) = nodes (hstore h)"
  "nodes (hstore (unmount i h)) = nodes (hstore h)" "nodes (hstore (remount h)) = nodes (hstore h)"
  "nodes (hstore (onopen h)) = nodes (hstore h)" "nodes (hstore (onclose i h)) = nodes (hstore h)"
  "nodes (hstore (onerror h)) = nodes (hstore h)" "nodes (hstore (poll_tick h)) = nodes (hstore h)"
proof -
  show c: "nodes (hstore (connect i h)) = nodes (hstore h)" for i h by (simp add: connect_def Let_def)
  show m: "nodes (hstore (mount h)) = nodes (hstore h)" for h by (simp add: mount_def Let_def c)
  show u: "nodes (hstore (unmount i h)) = nodes (hstore h)" for i h by (simp add: unmount_def Let_def split: option.split)
  show "nodes (hstore (remount h)) = nodes (hstore h)" by (simp add: remount_def m u)
qed (simp_all add: onopen_def onclose_def onerror_def poll_tick_def Let_def split: option.split)

lemma hook_step_ids:
  assumes "hook_step h e = Some h'" "sound_event (Stream e)" "different_ids (nodes (hstore h))"
  shows "different_ids (nodes (hstore h'))"
  using assms by (cases e) (auto simp: poll_answer_def onmessage_ids Let_def split: if_splits option.splits)

lemma begin_action_ids [simp]: "map node_id (nodes (begin_action a i s)) = map node_id (nodes s)"
  by (cases a) (auto simp: begin_action_def killNode_begin_def restartNode_begin_def)

section \<open>Notification identifiers\<close>

definition centre_keys :: "(nat \<Rightarrow> string \<times> number) list \<Rightarrow> centre \<Rightarrow> bool" where
  "centre_keys sts b \<longleftrightarrow> length (notifications b) \<le> 60 \<and> distinct (map nt_id (notifications b)) \<and>
     set (map nt_id (notifications b)) \<subseteq> (\<Union>st \<in> set sts. stamp_ids st)"

lemma push_all_ids:
  assumes "length (notifications b) \<le> 60"
  shows "map nt_id (notifications (push_all st ms b)) =
    take 60 (rev (map (\<lambda>k. fst (st k)) [0..<length ms]) @ map nt_id (notifications b))"
proof -
  let ?item = "\<lambda>(k, m). \<lparr>msg_title = msg_title m, msg_detail = msg_detail m, msg_level = msg_level m,
     nt_id = fst (st k), nt_ts = snd (st k), nt_read = False\<rparr>"
  have "push_all st ms b = fold add_item (map ?item (enumerate 0 ms)) b"
    by (simp add: push_all_def fold_map comp_def pushNotification_def [abs_def] case_prod_unfold)
  then have "notifications (push_all st ms b) = take 60 (rev (map ?item (enumerate 0 ms)) @ notifications b)"
    using notification_log.entries_fold assms by simp
  moreover have "map nt_id (map ?item (enumerate 0 ms)) = map (\<lambda>k. fst (st k)) (map fst (enumerate 0 ms))"
    unfolding map_map by (rule map_cong) auto
  ultimately show ?thesis
    by (simp only: take_map [symmetric] rev_map [symmetric] map_append map_fst_enumerate add_0)
qed

lemma push_all_keys:
  assumes "centre_keys sts b" "fresh_stamps (sts @ [st])"
  shows "centre_keys (sts @ [st]) (push_all st ms b)"
proof -
  let ?new = "map (\<lambda>k. fst (st k)) [0..<length ms]" and ?old = "map nt_id (notifications b)"
  have old: "length (notifications b) \<le> 60" "distinct ?old" "set ?old \<subseteq> (\<Union>s \<in> set sts. stamp_ids s)"
    using assms(1) by (auto simp: centre_keys_def)
  have st: "inj (\<lambda>k. fst (st k))" "\<forall>s \<in> set sts. stamp_ids s \<inter> stamp_ids st = {}"
    using assms(2) by (auto simp: fresh_stamps_def sorted_wrt_append)
  have "distinct (rev ?new @ ?old)"
    using old(2,3) st by (fastforce simp: distinct_map inj_on_def)
  moreover have "set (rev ?new @ ?old) \<subseteq> stamp_ids st \<union> (\<Union>s \<in> set sts. stamp_ids s)" using old(3) by auto
  then have "set (take 60 (rev ?new @ ?old)) \<subseteq> stamp_ids st \<union> (\<Union>s \<in> set sts. stamp_ids s)"
    by (rule subset_trans [OF set_take_subset])
  moreover have "length (notifications (push_all st ms b)) \<le> 60" using old(1) by (rule effects_bounded)
  ultimately show ?thesis unfolding centre_keys_def push_all_ids [OF old(1)] by (simp only: distinct_take) simp
qed

lemma centre_keys_more: "centre_keys sts b \<Longrightarrow> centre_keys (sts @ sts') b"
  by (auto simp: centre_keys_def)

lemma centre_keys_update:
  "centre_keys sts (b\<lparr>prevWsStatus := st\<rparr>) = centre_keys sts b" "centre_keys sts (b\<lparr>prevNodes := ns\<rparr>) = centre_keys sts b"
  "centre_keys sts (b\<lparr>nodesInitialized := i\<rparr>) = centre_keys sts b"
  by (simp_all add: centre_keys_def)

lemma fresh_stamps_prefix: "fresh_stamps (sts @ sts') \<Longrightarrow> fresh_stamps sts"
  by (auto simp: fresh_stamps_def sorted_wrt_append)

lemma render_effects_keys:
  assumes "centre_keys sts b" "fresh_stamps (sts @ [st1, st2])"
  shows "centre_keys (sts @ [st1, st2]) (render_effects st1 st2 s b)"
proof -
  have f: "fresh_stamps (sts @ [st1])" using assms(2) fresh_stamps_prefix [of "sts @ [st1]" "[st2]"] by simp
  have "centre_keys (sts @ [st1]) (ws_effect st1 (wsStatus s) b)"
    using push_all_keys [OF assms(1) f] by (simp add: ws_effect_def centre_keys_update)
  moreover have "fresh_stamps ((sts @ [st1]) @ [st2])" using assms(2) by simp
  ultimately have "centre_keys ((sts @ [st1]) @ [st2]) (nodes_effect st2 (nodes s) (ws_effect st1 (wsStatus s) b))"
    unfolding nodes_effect_def using push_all_keys centre_keys_more by (simp only: centre_keys_update split: if_split) blast
  then show ?thesis by (simp add: render_effects_def)
qed

lemma mount_effects_keys:
  assumes "centre_keys sts b" "fresh_stamps (sts @ [st0, st1, st2])"
  shows "centre_keys (sts @ [st0, st1, st2]) (mount_effects st0 st1 st2 s b)"
proof -
  have f: "fresh_stamps (sts @ [st0])" using assms(2) fresh_stamps_prefix [of "sts @ [st0]" "[st1, st2]"] by simp
  have "centre_keys (sts @ [st0]) (online_effect st0 b)" unfolding online_effect_def by (rule push_all_keys [OF assms(1) f])
  moreover have "fresh_stamps ((sts @ [st0]) @ [st1, st2])" using assms(2) by simp
  ultimately have "centre_keys ((sts @ [st0]) @ [st1, st2]) (render_effects st1 st2 s (online_effect st0 b))"
    by (rule render_effects_keys)
  then show ?thesis by (simp add: mount_effects_def)
qed

lemma panel_keys:
  "centre_keys sts b \<Longrightarrow> centre_keys sts (setNotificationsOpen v b)" "centre_keys sts b \<Longrightarrow> centre_keys sts (clearNotifications b)"
proof -
  have ids: "map nt_id (notifications (setNotificationsOpen v b)) = map nt_id (notifications b)"
    by (auto simp: setNotificationsOpen_def Let_def)
  moreover have "length (notifications (setNotificationsOpen v b)) = length (notifications b)"
    using arg_cong [OF ids, of length] by simp
  ultimately show "centre_keys sts b \<Longrightarrow> centre_keys sts (setNotificationsOpen v b)" by (simp only: centre_keys_def)
qed (simp add: centre_keys_def clearNotifications_def)

section \<open>The console\<close>

definition console_keys :: "(nat \<Rightarrow> string \<times> number) list \<Rightarrow> console \<Rightarrow> bool" where
  "console_keys sts c \<longleftrightarrow> centre_keys sts (bell_centre c) \<and> different_ids (nodes (the_store c)) \<and>
     (\<forall>p \<in> set (actions c). different_ids (nodes (previous p)))"

lemma console_step_keys:
  assumes "console_step tmsg c e c'" "sound_event e" "fresh_stamps (sts @ stamps_of e)" "console_keys sts c"
  shows "console_keys (sts @ stamps_of e) c'"
  using assms
proof (induction rule: console_step.induct)
  case (mounts c st0 st1 st2)
  then show ?case using mount_effects_keys by (simp add: console_keys_def)
next
  case (stream_event e c h)
  then show ?case using hook_step_ids by (auto simp: console_keys_def)
next
  case (click c a i)
  then show ?case by (auto simp: console_keys_def)
next
  case (answer k c fr)
  then show ?case by (auto simp: console_keys_def settle_action_eq dest: in_set_takeD in_set_dropD)
next
  case (render c st1 st2)
  then show ?case using render_effects_keys by (simp add: console_keys_def)
qed (simp_all add: console_keys_def panel_keys toggleNotifications_def)

lemma console_run_keys:
  assumes "console_run tmsg c es c'" "\<forall>e \<in> set es. sound_event e" "fresh_stamps (sts @ concat (map stamps_of es))"
    "console_keys sts c"
  shows "console_keys (sts @ concat (map stamps_of es)) c'"
  using assms
proof (induction arbitrary: sts rule: console_run.induct)
  case (console_Cons c e c' es c'')
  have "fresh_stamps (sts @ stamps_of e)"
    using console_Cons.prems(2) fresh_stamps_prefix [of "sts @ stamps_of e"] by simp
  then have "console_keys (sts @ stamps_of e) c'"
    using console_step_keys [OF console_Cons.hyps(1)] console_Cons.prems by simp
  then show ?case using console_Cons.IH [of "sts @ stamps_of e"] console_Cons.prems by simp
qed simp

lemma console_init_keys: "console_keys [] console_init"
  by (simp add: console_keys_def centre_keys_def console_init_def hook_init_def centre_init_def initialState_def initial_node_def)

end
