(* ===== verification/Markup.thy ===== *)
theory Markup
  imports ClusterView
begin

text \<open>
  Rendered pages. A component of the console is a function from its state to a tree of elements;
  this theory has the trees and what the browser and the rendering library do with them: a click
  runs the handlers from the clicked element up to the root, unless a handler stops it; the
  elements of an array are told apart by their keys; a chart reads the fields of its rows by name;
  a fill refers to a gradient by its identifier. Of the attributes, constant class names, sizes,
  colours and animation parameters are left out: they do not depend on the state, and no handler
  reads them. A class that depends on the state is kept as \<open>Cls\<close>.
\<close>

section \<open>Trees\<close>

datatype field = FNum number | FStr string | FBool bool

text \<open>
  \<open>StopClick\<close> is \<open>onClick={(e) => e.stopPropagation()}\<close>; \<open>OnPick\<close> is the \<open>onChange\<close> of a list to
  choose from, whose value can only be the one of a listed option; \<open>Rows\<close> is the \<open>data\<close> of a chart and
  \<open>FillUrl i\<close> the fill \<open>url(#i)\<close>.
\<close>

datatype 'e attr =
    Cls string
  | Attr string string
  | Disabled bool
  | OnClick 'e
  | StopClick
  | OnMouseEnter 'e
  | OnChange "string \<Rightarrow> 'e"
  | OnPick "string \<Rightarrow> 'e"
  | OnKeyDown "string \<Rightarrow> 'e option"
  | Rows "(string \<times> field) list list"
  | FillUrl string

text \<open>
  \<open>Null\<close> renders nothing, \<open>Arr\<close> is an array between braces, \<open>Glyph\<close> a text given by its code
  points, for characters outside Latin-1.
\<close>

datatype 'e html =
    Null
  | Text string
  | Glyph "nat list"
  | Arr "'e html list"
  | El string "string option" "'e attr list" "'e html list"

abbreviation tag :: "string \<Rightarrow> 'e attr list \<Rightarrow> 'e html list \<Rightarrow> 'e html" where
  "tag t as cs \<equiv> El t None as cs"

abbreviation keyed :: "string \<Rightarrow> string \<Rightarrow> 'e attr list \<Rightarrow> 'e html list \<Rightarrow> 'e html" where
  "keyed k t as cs \<equiv> El t (Some k) as cs"

abbreviation icon :: "string \<Rightarrow> 'e html" where
  "icon t \<equiv> El t None [] []"

abbreviation para :: "string \<Rightarrow> 'e html" where
  "para s \<equiv> El ''p'' None [] [Text s]"

text \<open>A text that may be undefined, which renders nothing.\<close>

definition opt_text :: "string option \<Rightarrow> 'e html" where
  "opt_text s = (case s of None \<Rightarrow> Null | Some x \<Rightarrow> Text x)"

text \<open>Both stops of a gradient; their colours are constants.\<close>

definition gradient :: "string \<Rightarrow> 'e html" where
  "gradient i = tag ''linearGradient'' [Attr ''id'' i]
     [tag ''stop'' [Attr ''offset'' ''5%''] [], tag ''stop'' [Attr ''offset'' ''95%''] []]"

fun ws_name :: "ws_status \<Rightarrow> string" where
  "ws_name WsConnecting = ''connecting''"
| "ws_name WsOpen = ''open''"
| "ws_name WsClosed = ''closed''"

section \<open>What a page says and accepts\<close>

text \<open>The texts of a page, in order.\<close>

fun texts_in :: "'e html \<Rightarrow> string list" where
  "texts_in Null = []"
| "texts_in (Text s) = [s]"
| "texts_in (Glyph cs) = []"
| "texts_in (Arr hs) = concat (map texts_in hs)"
| "texts_in (El t k as cs) = concat (map texts_in cs)"

fun attrs :: "'e html \<Rightarrow> 'e attr list" where
  "attrs (Arr hs) = concat (map attrs hs)"
| "attrs (El t k as cs) = as @ concat (map attrs cs)"
| "attrs _ = []"

text \<open>
  A click on an element runs its own handler, if it is not disabled, and then those of its
  ancestors (\<open>up\<close>), nearest first, unless it stops there. \<open>clicks up h\<close> lists the outcome of
  a click for every element of \<open>h\<close>.
\<close>

fun disabled_attr :: "'e attr \<Rightarrow> bool" where
  "disabled_attr (Disabled b) = b"
| "disabled_attr _ = False"

fun stops :: "'e attr \<Rightarrow> bool" where
  "stops StopClick = True"
| "stops _ = False"

fun click_attr :: "'e attr \<Rightarrow> 'e list" where
  "click_attr (OnClick e) = [e]"
| "click_attr _ = []"

definition bubble :: "'e attr list \<Rightarrow> 'e list \<Rightarrow> 'e list" where
  "bubble as up = (if list_ex disabled_attr as then [] else concat (map click_attr as)) @
     (if list_ex stops as then [] else up)"

fun clicks :: "'e list \<Rightarrow> 'e html \<Rightarrow> 'e list list" where
  "clicks up (Arr hs) = concat (map (clicks up) hs)"
| "clicks up (El t k as cs) = bubble as up # concat (map (clicks (bubble as up)) cs)"
| "clicks up _ = []"

text \<open>The values of the options inside a list, and the events that choosing one of them causes.\<close>

fun value_attr :: "'e attr \<Rightarrow> string list" where
  "value_attr (Attr n v) = (if n = ''value'' then [v] else [])"
| "value_attr _ = []"

fun option_values :: "'e html \<Rightarrow> string list" where
  "option_values (Arr hs) = concat (map option_values hs)"
| "option_values (El t k as cs) =
     (if t = ''option'' then concat (map value_attr as) else []) @ concat (map option_values cs)"
| "option_values _ = []"

fun pick_attr :: "string list \<Rightarrow> 'e attr \<Rightarrow> 'e list" where
  "pick_attr vs (OnPick f) = map f vs"
| "pick_attr vs _ = []"

fun picks :: "'e html \<Rightarrow> 'e list" where
  "picks (Arr hs) = concat (map picks hs)"
| "picks (El t k as cs) =
     concat (map (pick_attr (concat (map option_values cs))) as) @ concat (map picks cs)"
| "picks _ = []"

text \<open>The gestures a page reacts to, each with the events it causes.\<close>

inductive gesture :: "'e html \<Rightarrow> 'e list \<Rightarrow> bool" for h :: "'e html" where
  by_click: "es \<in> set (clicks [] h) \<Longrightarrow> gesture h es"
| by_hover: "OnMouseEnter e \<in> set (attrs h) \<Longrightarrow> gesture h [e]"
| by_input: "OnChange f \<in> set (attrs h) \<Longrightarrow> gesture h [f v]"
| by_pick: "e \<in> set (picks h) \<Longrightarrow> gesture h [e]"
| by_key: "OnKeyDown f \<in> set (attrs h) \<Longrightarrow> f key = Some e \<Longrightarrow> gesture h [e]"

definition offered :: "'e html \<Rightarrow> 'e set" where
  "offered h = {e. \<exists>es. gesture h es \<and> e \<in> set es}"

text \<open>No gesture causes more than one event.\<close>

definition single :: "'e html \<Rightarrow> bool" where
  "single h \<longleftrightarrow> (\<forall>es \<in> set (clicks [] h). length es \<le> 1)"

section \<open>Well-formed pages\<close>

fun key_of :: "'e html \<Rightarrow> string option" where
  "key_of (El t k as cs) = k"
| "key_of _ = None"

fun well_keyed :: "'e html \<Rightarrow> bool" where
  "well_keyed (Arr hs) \<longleftrightarrow> None \<notin> set (map key_of hs) \<and> distinct (map key_of hs) \<and> (\<forall>h \<in> set hs. well_keyed h)"
| "well_keyed (El t k as cs) \<longleftrightarrow> (\<forall>h \<in> set cs. well_keyed h)"
| "well_keyed _ \<longleftrightarrow> True"

fun data_rows :: "'e attr list \<Rightarrow> (string \<times> field) list list option \<Rightarrow> (string \<times> field) list list option" where
  "data_rows [] ctx = ctx"
| "data_rows (Rows rs # as) ctx = Some rs"
| "data_rows (_ # as) ctx = data_rows as ctx"

fun reads_field :: "(string \<times> field) list list option \<Rightarrow> 'e attr \<Rightarrow> bool" where
  "reads_field ctx (Attr n v) \<longleftrightarrow> (n = ''dataKey'' \<longrightarrow>
     (case ctx of None \<Rightarrow> False | Some rs \<Rightarrow> \<forall>r \<in> set rs. map_of r v \<noteq> None))"
| "reads_field ctx _ \<longleftrightarrow> True"

text \<open>Every axis and every series reads a field that all rows of its chart have.\<close>

fun charts_ok :: "(string \<times> field) list list option \<Rightarrow> 'e html \<Rightarrow> bool" where
  "charts_ok ctx (Arr hs) \<longleftrightarrow> (\<forall>h \<in> set hs. charts_ok ctx h)"
| "charts_ok ctx (El t k as cs) \<longleftrightarrow>
     (\<forall>a \<in> set as. reads_field (data_rows as ctx) a) \<and> (\<forall>h \<in> set cs. charts_ok (data_rows as ctx) h)"
| "charts_ok ctx _ \<longleftrightarrow> True"

fun id_attr :: "'e attr \<Rightarrow> string list" where
  "id_attr (Attr n v) = (if n = ''id'' then [v] else [])"
| "id_attr _ = []"

fun fill_attr :: "'e attr \<Rightarrow> string list" where
  "fill_attr (FillUrl i) = [i]"
| "fill_attr _ = []"

definition ids :: "'e html \<Rightarrow> string list" where
  "ids h = concat (map id_attr (attrs h))"

definition fills :: "'e html \<Rightarrow> string list" where
  "fills h = concat (map fill_attr (attrs h))"

definition well_formed :: "'e html \<Rightarrow> bool" where
  "well_formed h \<longleftrightarrow> well_keyed h \<and> charts_ok None h \<and> distinct (ids h) \<and> set (fills h) \<subseteq> set (ids h)"

section \<open>Keys\<close>

text \<open>Decimal notation is injective and has no dash after its sign, so indexed keys differ.\<close>

definition undigits :: "string \<Rightarrow> int" where
  "undigits s = foldl (\<lambda>a c. 10 * a + (of_char c - 48)) 0 s"

lemma of_char_digit_char: "(of_char (digit_char n) :: int) = 48 + n mod 10"
proof -
  have "n mod 10 \<in> {0..<10}" by simp
  then have "n mod 10 \<in> {0, 1, 2, 3, 4, 5, 6, 7, 8, 9}" by (simp, presburger)
  then show ?thesis by (auto simp: digit_char_def)
qed

lemma undigits_digits: "0 \<le> n \<Longrightarrow> undigits (digits n) = n"
proof (induction n rule: digits.induct)
  case (1 n)
  show ?case
  proof (cases "n < 10")
    case True
    with 1 show ?thesis by (simp add: digits.simps [of n] undigits_def of_char_digit_char)
  next
    case False
    then have "undigits (digits (n div 10)) = n div 10" using 1 by simp
    then show ?thesis using False
      by (simp add: digits.simps [of n] undigits_def of_char_digit_char)
  qed
qed

lemma digits_no_dash: "CHR ''-'' \<notin> set (digits n)"
proof (induction n rule: digits.induct)
  case (1 n)
  have "digit_char n \<noteq> CHR ''-''"
  proof
    assume "digit_char n = CHR ''-''"
    then have "48 + n mod 10 = (45 :: int)" using of_char_digit_char [of n] by simp
    then show False using pos_mod_sign [of 10 n] by linarith
  qed
  with 1 show ?case by (simp add: digits.simps [of n])
qed

lemma digits_inject: "0 \<le> m \<Longrightarrow> 0 \<le> n \<Longrightarrow> digits m = digits n \<Longrightarrow> m = n"
  by (metis undigits_digits)

lemma show_nat_inject [simp]: "show_nat m = show_nat n \<longleftrightarrow> m = n"
proof
  assume "show_nat m = show_nat n"
  then have "int m = int n" by (intro digits_inject) (simp_all add: show_nat_def)
  then show "m = n" by simp
qed simp

lemma show_int_inject [simp]: "show_int m = show_int n \<longleftrightarrow> m = n"
proof
  assume eq: "show_int m = show_int n"
  have dash: "digits a \<noteq> CHR ''-'' # xs" "CHR ''-'' # xs \<noteq> digits a" for a xs
    using digits_no_dash [of a] by (metis list.set_intros(1))+
  show "m = n"
  proof (cases "m < 0"; cases "n < 0")
    assume "m < 0" "n < 0"
    then have "- m = - n" using eq by (intro digits_inject) (simp_all add: show_int_def)
    then show ?thesis by simp
  next
    assume "\<not> m < 0" "\<not> n < 0"
    then show ?thesis using eq by (intro digits_inject) (simp_all add: show_int_def)
  qed (use eq dash in \<open>simp_all add: show_int_def\<close>)
qed simp

definition indexed_key :: "string \<Rightarrow> nat \<Rightarrow> string" where
  "indexed_key s i = s @ ''-'' @ show_nat i"

lemma indexed_key_index: "indexed_key s i = indexed_key r j \<Longrightarrow> i = j"
proof -
  assume eq: "indexed_key s i = indexed_key r j"
  have tail: "takeWhile (\<lambda>c. c \<noteq> CHR ''-'') (rev (indexed_key x k)) = rev (show_nat k)" for x k
    using digits_no_dash [of "int k"] unfolding indexed_key_def show_nat_def rev_append append_assoc
    by (subst takeWhile_append2) auto
  show ?thesis using tail [of s i] tail [of r j] eq by simp
qed

lemma distinct_indexed [simp]:
  "distinct (map (\<lambda>x. indexed_key (f (snd x)) (fst x)) (enumerate 0 xs))"
  by (auto simp: distinct_conv_nth nth_enumerate_eq dest: indexed_key_index)

lemma distinct_Some [simp]: "distinct (map (\<lambda>x. Some (f x)) xs) \<longleftrightarrow> distinct (map f xs)"
  by (induction xs) auto

lemma distinct_show_int [simp]: "distinct (map (\<lambda>n. show_int (f n)) ns) \<longleftrightarrow> distinct (map f ns)"
  by (induction ns) auto

section \<open>Trees built from other trees\<close>

lemma concat_map_concat: "concat (map f (concat (map g xs))) = concat (map (\<lambda>x. concat (map f (g x))) xs)"
  by (induction xs) simp_all

lemma concat_map_Nil [simp]: "concat (map (\<lambda>x. []) xs) = []"
  by (induction xs) simp_all

lemma ids_simps [simp]:
  "ids Null = []" "ids (Text s) = []" "ids (Glyph ps) = []"
  "ids (Arr hs) = concat (map ids hs)"
  "ids (El t k as cs) = concat (map id_attr as) @ concat (map ids cs)"
  by (simp_all add: ids_def [abs_def] concat_map_concat)

lemma fills_simps [simp]:
  "fills Null = []" "fills (Text s) = []" "fills (Glyph ps) = []"
  "fills (Arr hs) = concat (map fills hs)"
  "fills (El t k as cs) = concat (map fill_attr as) @ concat (map fills cs)"
  by (simp_all add: fills_def [abs_def] concat_map_concat)

lemma opt_text_simps [simp]:
  "clicks up (opt_text s) = []" "attrs (opt_text s) = []" "well_keyed (opt_text s)" "charts_ok ctx (opt_text s)"
  "texts_in (opt_text None) = []" "texts_in (opt_text (Some x)) = [x]" "ids (opt_text s) = []" "fills (opt_text s) = []"
  "picks (opt_text s) = []"
  by (simp_all add: opt_text_def split: option.split)

lemma bubble_simps [simp]:
  "bubble [] up = up"
  "bubble as [] = (if list_ex disabled_attr as then [] else concat (map click_attr as))"
  by (simp_all add: bubble_def)

text \<open>Renaming the events of a page, as a page does with the components inside it.\<close>

lemma attr_map [simp]:
  "disabled_attr (map_attr f a) = disabled_attr a" "stops (map_attr f a) = stops a"
  "click_attr (map_attr f a) = map f (click_attr a)" "reads_field ctx (map_attr f a) = reads_field ctx a"
  "id_attr (map_attr f a) = id_attr a" "fill_attr (map_attr f a) = fill_attr a"
  "value_attr (map_attr f a) = value_attr a" "pick_attr vs (map_attr f a) = map f (pick_attr vs a)"
  by (cases a; simp)+

lemma data_rows_map [simp]: "data_rows (map (map_attr f) as) ctx = data_rows as ctx"
proof (induction as)
  case (Cons a as)
  then show ?case by (cases a) simp_all
qed simp

lemma key_of_map [simp]: "key_of (map_html f h) = key_of h"
  by (cases h) simp_all

lemma attrs_map [simp]: "attrs (map_html f h) = map (map_attr f) (attrs h)"
  by (induction h rule: attrs.induct) (simp_all add: map_concat comp_def cong: map_cong)

lemma texts_in_map [simp]: "texts_in (map_html f h) = texts_in h"
  by (induction h rule: texts_in.induct) (simp_all add: comp_def cong: map_cong)

lemma option_values_map [simp]: "option_values (map_html f h) = option_values h"
  by (induction h rule: option_values.induct) (simp_all add: comp_def cong: map_cong)

lemma picks_map [simp]: "picks (map_html f h) = map f (picks h)"
  by (induction h rule: picks.induct) (simp_all add: map_concat comp_def cong: map_cong)

lemma bubble_map [simp]: "bubble (map (map_attr f) as) (map f up) = map f (bubble as up)"
  by (simp add: bubble_def list_ex_iff map_concat comp_def)

lemma clicks_map: "clicks (map f up) (map_html f h) = map (map f) (clicks up h)"
  by (induction up h rule: clicks.induct) (simp_all add: map_concat comp_def cong: map_cong)

lemma clicks_map_Nil [simp]: "clicks [] (map_html f h) = map (map f) (clicks [] h)"
  using clicks_map [of f "[]" h] by simp

lemma well_keyed_map [simp]: "well_keyed (map_html f h) = well_keyed h"
  by (induction h rule: well_keyed.induct) (simp_all add: comp_def)

lemma charts_ok_map [simp]: "charts_ok ctx (map_html f h) = charts_ok ctx h"
  by (induction ctx h rule: charts_ok.induct) simp_all

lemma ids_map [simp]: "ids (map_html f h) = ids h" and fills_map [simp]: "fills (map_html f h) = fills h"
  by (simp_all add: ids_def fills_def comp_def)

lemma well_formed_map [simp]: "well_formed (map_html f h) = well_formed h"
  by (simp add: well_formed_def)

lemma single_map [simp]: "single (map_html f h) = single h"
  by (simp add: single_def)

lemma gesture_map: "gesture (map_html f h) es \<longleftrightarrow> (\<exists>es'. gesture h es' \<and> es = map f es')"
proof
  assume "gesture (map_html f h) es"
  then show "\<exists>es'. gesture h es' \<and> es = map f es'"
  proof cases
    case by_click
    then show ?thesis by (auto intro: gesture.intros)
  next
    case (by_hover e)
    then obtain a where a: "a \<in> set (attrs h)" "OnMouseEnter e = map_attr f a" by auto
    from a(2) obtain e' where e': "a = OnMouseEnter e'" "e = f e'" by (cases a) simp_all
    show ?thesis using gesture.by_hover [of e' h] a(1) e' by_hover by (intro exI [of _ "[e']"]) simp
  next
    case (by_input g v)
    then obtain a where a: "a \<in> set (attrs h)" "OnChange g = map_attr f a" by auto
    from a(2) obtain g' where g': "a = OnChange g'" "g = f \<circ> g'" by (cases a) simp_all
    show ?thesis using gesture.by_input [of g' h v] a(1) g' by_input by (intro exI [of _ "[g' v]"]) simp
  next
    case (by_pick e)
    then obtain e' where e': "e' \<in> set (picks h)" "e = f e'" by auto
    show ?thesis using gesture.by_pick [OF e'(1)] e'(2) by_pick by (intro exI [of _ "[e']"]) simp
  next
    case (by_key g key e)
    then obtain a where a: "a \<in> set (attrs h)" "OnKeyDown g = map_attr f a" by auto
    from a(2) obtain g' where g': "a = OnKeyDown g'" "g = map_option f \<circ> g'" by (cases a) simp_all
    then obtain e' where "g' key = Some e'" "e = f e'" using by_key by auto
    then show ?thesis using gesture.by_key [of g' h key e'] a(1) g' by_key by (intro exI [of _ "[e']"]) simp
  qed
next
  assume "\<exists>es'. gesture h es' \<and> es = map f es'"
  then obtain es' where g: "gesture h es'" and es: "es = map f es'" by blast
  from g show "gesture (map_html f h) es"
  proof cases
    case by_click
    then show ?thesis unfolding es by (auto intro: gesture.by_click)
  next
    case (by_hover e)
    then show ?thesis unfolding es by (force intro: gesture.by_hover)
  next
    case (by_input g v)
    then have "OnChange (f \<circ> g) \<in> set (attrs (map_html f h))" by force
    from gesture.by_input [OF this, of v] show ?thesis unfolding es by_input by simp
  next
    case (by_pick e)
    then have "f e \<in> set (picks (map_html f h))" by simp
    from gesture.by_pick [OF this] show ?thesis unfolding es by_pick by simp
  next
    case (by_key g key e)
    then have "OnKeyDown (map_option f \<circ> g) \<in> set (attrs (map_html f h))" by force
    from gesture.by_key [OF this, of key "f e"] show ?thesis unfolding es using by_key by simp
  qed
qed

lemma offered_map [simp]: "offered (map_html f h) = f ` offered h"
  by (force simp: offered_def gesture_map)

lemma offeredE:
  assumes "e \<in> offered h"
  obtains es where "es \<in> set (clicks [] h)" "e \<in> set es"
  | "OnMouseEnter e \<in> set (attrs h)"
  | f v where "OnChange f \<in> set (attrs h)" "e = f v"
  | "e \<in> set (picks h)"
  | f key where "OnKeyDown f \<in> set (attrs h)" "f key = Some e"
  using assms by (auto simp: offered_def elim!: gesture.cases)

lemma offeredI:
  "es \<in> set (clicks [] h) \<Longrightarrow> e \<in> set es \<Longrightarrow> e \<in> offered h"
  "OnMouseEnter e \<in> set (attrs h) \<Longrightarrow> e \<in> offered h"
  "OnChange f \<in> set (attrs h) \<Longrightarrow> f v \<in> offered h"
  "e \<in> set (picks h) \<Longrightarrow> e \<in> offered h"
  "OnKeyDown g \<in> set (attrs h) \<Longrightarrow> g key = Some e \<Longrightarrow> e \<in> offered h"
  unfolding offered_def by (blast intro: gesture.intros list.set_intros)+

lemma offered_iff:
  "e \<in> offered h \<longleftrightarrow> (\<exists>es \<in> set (clicks [] h). e \<in> set es) \<or> OnMouseEnter e \<in> set (attrs h) \<or>
     (\<exists>f v. OnChange f \<in> set (attrs h) \<and> e = f v) \<or> e \<in> set (picks h) \<or> (\<exists>f key. OnKeyDown f \<in> set (attrs h) \<and> f key = Some e)"
  by (auto elim!: offeredE intro: offeredI)

lemma offered_simps [simp]:
  "offered Null = {}" "offered (Text s) = {}" "offered (Glyph ps) = {}"
  "offered (Arr hs) = \<Union> (offered ` set hs)"
  "offered (El t k [] cs) = \<Union> (offered ` set cs)"
  by (rule set_eqI; simp add: offered_iff; blast)+

lemma single_simps [simp]:
  "single Null" "single (Text s)" "single (Glyph ps)"
  "single (Arr hs) \<longleftrightarrow> (\<forall>h \<in> set hs. single h)"
  "single (El t k [] cs) \<longleftrightarrow> (\<forall>h \<in> set cs. single h)"
  by (auto simp: single_def)

text \<open>A page with buttons only.\<close>

fun only_click :: "'e attr \<Rightarrow> bool" where
  "only_click (OnMouseEnter e) = False"
| "only_click (OnChange f) = False"
| "only_click (OnPick f) = False"
| "only_click (OnKeyDown f) = False"
| "only_click _ = True"

lemma picks_none: "\<forall>f. OnPick f \<notin> set (attrs h) \<Longrightarrow> picks h = []"
proof (induction h rule: picks.induct)
  case (2 t k as cs)
  have "pick_attr vs a = []" if "a \<in> set as" for vs a using 2(2) that by (cases a) auto
  then show ?case using 2 by auto
qed auto

lemma offered_only_click:
  assumes "\<forall>a \<in> set (attrs h). only_click a"
  shows "offered h = \<Union> (set ` set (clicks [] h))"
proof (intro equalityI subsetI)
  fix e assume "e \<in> offered h"
  then show "e \<in> \<Union> (set ` set (clicks [] h))"
  proof (cases rule: offeredE)
    case (1 es)
    then show ?thesis by blast
  next
    case 2
    then show ?thesis using assms by (metis only_click.simps(1))
  next
    case (3 f v)
    then show ?thesis using assms by (metis only_click.simps(2))
  next
    case 4
    have "OnPick f \<notin> set (attrs h)" for f using assms by (metis only_click.simps(3))
    then show ?thesis using 4 picks_none [of h] by simp
  next
    case (5 f key)
    then show ?thesis using assms by (metis only_click.simps(4))
  qed
qed (auto intro: offeredI)

text \<open>A page without controls.\<close>

definition inert :: "'e html \<Rightarrow> bool" where
  "inert h \<longleftrightarrow> set (clicks [] h) \<subseteq> {[]} \<and> (\<forall>a \<in> set (attrs h). only_click a)"

lemma inertD:
  "inert h \<Longrightarrow> es \<in> set (clicks [] h) \<Longrightarrow> es = []"
  "inert h \<Longrightarrow> a \<in> set (attrs h) \<Longrightarrow> only_click a"
  by (auto simp: inert_def)

lemma inert_offered: "inert h \<Longrightarrow> offered h = {}"
  by (auto simp: inert_def offered_only_click)

lemma inert_single: "inert h \<Longrightarrow> single h"
  by (auto simp: single_def dest: inertD)

text \<open>A page without charts.\<close>

fun chartless_attr :: "'e attr \<Rightarrow> bool" where
  "chartless_attr (Attr n v) = (n \<noteq> ''dataKey'' \<and> n \<noteq> ''id'')"
| "chartless_attr (FillUrl i) = False"
| "chartless_attr _ = True"

definition chartless :: "'e html \<Rightarrow> bool" where
  "chartless h \<longleftrightarrow> (\<forall>a \<in> set (attrs h). chartless_attr a)"

lemma chartless_simps [simp]:
  "chartless Null" "chartless (Text s)" "chartless (Glyph ps)"
  "chartless (Arr hs) \<longleftrightarrow> (\<forall>h \<in> set hs. chartless h)"
  "chartless (El t k as cs) \<longleftrightarrow> (\<forall>a \<in> set as. chartless_attr a) \<and> (\<forall>h \<in> set cs. chartless h)"
  by (auto simp: chartless_def)

lemma chartless_opt_text [simp]: "chartless (opt_text s)"
  by (simp add: chartless_def)

lemma chartless_attrD: "chartless_attr a \<Longrightarrow> reads_field ctx a \<and> id_attr a = [] \<and> fill_attr a = []"
  by (cases a) simp_all

lemma chartless_charts_ok: "chartless h \<Longrightarrow> charts_ok ctx h"
  by (induction ctx h rule: charts_ok.induct) (auto dest: chartless_attrD)

lemma chartless_no_ids: "chartless h \<Longrightarrow> ids h = []" and chartless_no_fills: "chartless h \<Longrightarrow> fills h = []"
  by (simp_all add: chartless_def ids_def fills_def chartless_attrD)

lemma well_formed_chartless: "chartless h \<Longrightarrow> well_formed h \<longleftrightarrow> well_keyed h"
  by (simp add: well_formed_def chartless_charts_ok chartless_no_ids chartless_no_fills)

section \<open>Control panels of the cluster\<close>

text \<open>
  Three pages show the nodes with buttons for them. What they have in common is what they offer:
  a kill for every healthy node and a restart for every other one.
\<close>

definition cluster_controls :: "'a NodeMeta_scheme list \<Rightarrow> (action \<times> int) set" where
  "cluster_controls ns = (\<lambda>n. (if healthy n then Kill else Restart, node_id n)) ` set ns"

locale cluster_panel =
  fixes render :: "NodeMeta list \<Rightarrow> (action \<times> int) html"
  assumes offers: "offered (render ns) = cluster_controls ns"
    and one_each: "single (render ns)"
begin

lemma offered_node:
  "(a, i) \<in> offered (render ns) \<longleftrightarrow> (\<exists>n \<in> set ns. node_id n = i \<and> a = (if healthy n then Kill else Restart))"
  unfolding offers cluster_controls_def image_iff by (metis prod.inject)

lemma every_node_has_a_control: "n \<in> set ns \<Longrightarrow> \<exists>a. (a, node_id n) \<in> offered (render ns)"
  unfolding offered_node by blast

lemma forced_down_restart_only:
  assumes inv: "store_inv s" and n: "n \<in> set (nodes s)" "node_id n \<in> set (forcedDownNodeIds s)"
  shows "(a, node_id n) \<in> offered (render (nodes s)) \<longleftrightarrow> a = Restart"
proof -
  have down: "\<not> healthy m" if "m \<in> set (nodes s)" "node_id m = node_id n" for m
    using inv that n(2) by (simp add: store_inv_def)
  show ?thesis
  proof
    assume "(a, node_id n) \<in> offered (render (nodes s))"
    then obtain m where "m \<in> set (nodes s)" "node_id m = node_id n" "a = (if healthy m then Kill else Restart)"
      unfolding offered_node by blast
    then show "a = Restart" using down by simp
  next
    assume "a = Restart"
    then show "(a, node_id n) \<in> offered (render (nodes s))" unfolding offered_node using n(1) down by auto
  qed
qed

end

end
