(* ===== verification/Render_Dashboards.thy ===== *)
theory Render_Dashboards
  imports Markup MiniGraph
begin

text \<open>
  The markup of the dashboards: \<open>Landing\<close>, \<open>DashboardView\<close> and \<open>FloatingMiniGraph\<close> of
  \<^verbatim>\<open>App.tsx\<close>, \<^verbatim>\<open>pages/Dashboard.tsx\<close> and its components \<^verbatim>\<open>NodeCard.tsx\<close>,
  \<^verbatim>\<open>OpsChart.tsx\<close> and \<^verbatim>\<open>LagChart.tsx\<close>, and the page with the requests of its cards in
  flight. \<open>loc\<close> formats numbers and \<open>clock\<close> times of day.
\<close>

section \<open>Landing\<close>

definition Landing :: "'e \<Rightarrow> 'e html" where
  "Landing onEnter =
     tag ''motion.div'' []
       [tag ''div'' [] [],
        tag ''div'' []
         [para ''Secure Protocol Initialized'',
          tag ''h1'' [] [Text ''OBSERVE''],
          para ''A high-fidelity interface for distributed systems with real-time telemetry and orchestration.'',
          tag ''button'' [OnClick onEnter] [Text ''Initialize '', icon ''Zap'']]]"

section \<open>DashboardView\<close>

definition chart_fields :: "chart_row \<Rightarrow> (string \<times> field) list" where
  "chart_fields r = [(''time'', FStr (row_time r)), (''SET'', FNum (row_SET r)), (''GET'', FNum (row_GET r))]"

definition card_icons :: "string list" where
  "card_icons = [''Activity'', ''Zap'', ''Database'', ''Server'']"

definition DashboardView_card :: "card \<Rightarrow> string \<Rightarrow> 'e html" where
  "DashboardView_card c ic =
     keyed (card_label c) ''div'' []
       [tag ''div'' [] [icon ic], para (card_label c), para (card_value c), para (card_sub c)]"

definition area_chart :: "(string \<times> field) list list \<Rightarrow> 'e html" where
  "area_chart rows =
     tag ''ResponsiveContainer'' []
       [tag ''AreaChart'' [Rows rows]
         [tag ''defs'' [] [gradient ''setGrad'', gradient ''getGrad''],
          icon ''CartesianGrid'',
          tag ''XAxis'' [Attr ''dataKey'' ''time''] [],
          icon ''YAxis'',
          icon ''Tooltip'',
          tag ''Area'' [Attr ''dataKey'' ''SET'', FillUrl ''setGrad''] [],
          tag ''Area'' [Attr ''dataKey'' ''GET'', FillUrl ''getGrad''] []]]"

definition DashboardView :: "(number \<Rightarrow> string) \<Rightarrow> (number \<Rightarrow> string) \<Rightarrow> NodeMeta list \<Rightarrow> MetricsPoint list \<Rightarrow> 'e html" where
  "DashboardView loc clock ns hist =
     tag ''div'' []
       [tag ''div'' []
         [tag ''h2'' [] [Text ''Observe Dashboard''], para ''Distributed Storage Observability System''],
        tag ''div'' []
         [Arr (map (\<lambda>(c, ic). DashboardView_card c ic) (zip (dashboard_cards loc ns hist) card_icons))],
        tag ''div'' []
         [tag ''h3'' [] [Text ''Throughput Real-time''],
          area_chart (map chart_fields (chart_data clock hist))]]"

section \<open>FloatingMiniGraph\<close>

datatype mini_event = MgSetCollapsed bool | MgNextCorner

fun mini_handle :: "mini_event \<Rightarrow> mini_graph \<Rightarrow> mini_graph" where
  "mini_handle (MgSetCollapsed b) g = setCollapsed b g"
| "mini_handle MgNextCorner g = nextCorner g"

definition mini_fields :: "mini_point \<Rightarrow> (string \<times> field) list" where
  "mini_fields p = [(''time'', FStr (mp_time p)), (''total'', FNum (mp_total p))]"

definition mini_chart :: "mini_point list \<Rightarrow> 'e html" where
  "mini_chart pts =
     tag ''div'' [] [tag ''ResponsiveContainer'' []
       [tag ''AreaChart'' [Rows (map mini_fields pts)]
         [tag ''defs'' [] [gradient ''miniOpsGrad''],
          icon ''CartesianGrid'',
          tag ''XAxis'' [Attr ''dataKey'' ''time''] [],
          icon ''YAxis'',
          icon ''Tooltip'',
          tag ''Area'' [Attr ''dataKey'' ''total'', FillUrl ''miniOpsGrad''] []]]]"

definition FloatingMiniGraph ::
  "(number \<Rightarrow> string) \<Rightarrow> (number \<Rightarrow> string) \<Rightarrow> bool \<Rightarrow> MetricsPoint list \<Rightarrow> ws_status \<Rightarrow> mini_graph \<Rightarrow> mini_event html"
where
  "FloatingMiniGraph loc clock isVisible hist st g =
     (if \<not> isVisible then Null
      else let latest = mini_latest clock hist in
       tag ''motion.div'' [Cls (MINI_GRAPH_CORNER_CLASS (corner g))]
        [if collapsed g
         then tag ''button'' [OnClick (MgSetCollapsed False)]
           [icon ''Activity'',
            tag ''div'' [] [para ''Mini Throughput'', para (loc latest @ '' ops/s'')],
            icon ''Maximize2'']
         else tag ''div'' []
           [tag ''div'' []
             [tag ''div'' []
               [para ''Live Throughput Mini Graph'',
                para (''Status: '' @ ws_name st @ [CHR '' '', CHR 0xB7, CHR '' ''] @ loc latest @ '' ops/s'')],
              tag ''div'' []
               [tag ''button'' [OnClick MgNextCorner, Attr ''title'' ''Move mini graph corner''] [icon ''Move''],
                tag ''button'' [OnClick (MgSetCollapsed True), Attr ''title'' ''Minimize mini graph''] [icon ''Minimize2'']]],
            mini_chart (miniData clock hist),
            para ''Tip: use the move icon to cycle corners.'']])"

section \<open>The page\<close>

definition Metric :: "string \<times> string \<Rightarrow> string \<Rightarrow> 'e html" where
  "Metric m tone_class = tag ''div'' []
     [tag ''div'' [] [Text (fst m)], tag ''div'' [Cls tone_class] [Text (snd m)]]"

definition metric_tones :: "string list" where
  "metric_tones = [''text-amber-300'', ''text-orange-300'', ''text-teal-300'', ''text-sky-300'']"

definition NodeCard :: "(number \<Rightarrow> string) \<Rightarrow> 'a NodeMeta_scheme \<Rightarrow> node_card \<Rightarrow> action html" where
  "NodeCard loc n c =
     tag ''div'' [Cls (if is_leader n then ''border-sky-400/70 shadow-[0_0_38px_-20px_rgba(56,189,248,.95)]'' else ''border-white/10'')]
       [tag ''div'' []
         [tag ''div'' []
           [tag ''span'' [Cls (if healthy n then ''bg-emerald-400 animate-pulseSoft'' else ''bg-red-500'')] [],
            tag ''span'' [] [Text (''Node '' @ show_int (node_id n))],
            if card_leader_badge n then tag ''span'' [] [Text ''LEADER''] else Null],
          tag ''span'' [] [Text (host n @ '':'' @ show_int (port n))]],
        tag ''div'' [] (map (\<lambda>(m, t). Metric m t) (zip (card_metrics loc n) metric_tones)),
        tag ''div'' []
         [tag ''button'' [OnClick Kill, Disabled (\<not> card_kill_enabled n c)]
           [Text (if pendingKill c then ''Killing...'' else ''Kill'')],
          tag ''button'' [OnClick Restart, Disabled (\<not> card_restart_enabled n c)]
           [Text (if pendingRestart c then ''Restarting...'' else ''Restart'')]]]"

definition OpsChart :: "(number \<Rightarrow> string) \<Rightarrow> MetricsPoint list \<Rightarrow> 'e html" where
  "OpsChart clock hist =
     (let data = ops_chart_data clock hist in
      tag ''section'' []
       [tag ''h3'' [] [Text ''Live throughput (ops/s)''],
        if length data = 0 then para ''Waiting for metric stream...'' else Null,
        tag ''ResponsiveContainer'' []
         [tag ''AreaChart'' [Rows (map chart_fields data)]
           [tag ''defs'' [] [gradient ''setGrad'', gradient ''getGrad''],
            icon ''CartesianGrid'',
            tag ''XAxis'' [Attr ''dataKey'' ''time''] [],
            icon ''YAxis'',
            icon ''Tooltip'',
            icon ''Legend'',
            tag ''Area'' [Attr ''dataKey'' ''SET'', FillUrl ''setGrad''] [],
            tag ''Area'' [Attr ''dataKey'' ''GET'', FillUrl ''getGrad''] []]]])"

definition lag_fields :: "lag_row \<Rightarrow> (string \<times> field) list" where
  "lag_fields r = [(''name'', FStr (lag_name r)), (''lag'', FNum (lag_lag r)), (''healthy'', FBool (lag_healthy r))]"

definition LagChart :: "'a NodeMeta_scheme list \<Rightarrow> 'e html" where
  "LagChart ns =
     (let data = lag_data ns in
      tag ''section'' []
       [tag ''h3'' [] [Text ''Replication lag (ms)''],
        if length data = 0 then para ''No cluster data yet.'' else Null,
        tag ''ResponsiveContainer'' []
         [tag ''BarChart'' [Rows (map lag_fields data)]
           [icon ''CartesianGrid'',
            tag ''XAxis'' [Attr ''dataKey'' ''name''] [],
            icon ''YAxis'',
            icon ''Tooltip'',
            tag ''Bar'' [Attr ''dataKey'' ''lag''] []]]])"

fun tone_class :: "tone \<Rightarrow> string" where
  "tone_class ToneOk = ''border-emerald-400/35 bg-emerald-500/10 text-emerald-200''"
| "tone_class ToneInfo = ''border-sky-400/35 bg-sky-500/10 text-sky-200''"
| "tone_class ToneDanger = ''border-rose-400/35 bg-rose-500/10 text-rose-200''"
| "tone_class ToneNeutral = ''border-white/15 bg-white/5 text-zinc-200''"

definition Chip :: "chip \<Rightarrow> 'e html" where
  "Chip c = tag ''div'' [Cls (tone_class (chip_tone c))] [para (chip_label c), para (chip_value c)]"

definition Stat :: "string \<times> string \<Rightarrow> string \<Rightarrow> 'e html" where
  "Stat tv note_text = tag ''article'' [] [para (fst tv), para (snd tv), para note_text]"

definition stat_notes :: "string list" where
  "stat_notes = [''across healthy nodes'', ''healthy node mean'', ''latest sample'', ''latest sample'']"

text \<open>The card of node \<open>i\<close> has the state \<open>cs i\<close>; its events carry the node.\<close>

definition Dashboard_card ::
  "(number \<Rightarrow> string) \<Rightarrow> (int \<Rightarrow> node_card) \<Rightarrow> 'a NodeMeta_scheme \<Rightarrow> (action \<times> int) html"
where
  "Dashboard_card loc cs n = keyed (show_int (node_id n)) ''NodeCard'' []
     [map_html (\<lambda>a. (a, node_id n)) (NodeCard loc n (cs (node_id n)))]"

definition Dashboard_page ::
  "(number \<Rightarrow> string) \<Rightarrow> (number \<Rightarrow> string) \<Rightarrow> 'a NodeMeta_scheme PageClusterState \<Rightarrow> MetricsPoint list \<Rightarrow>
   (int \<Rightarrow> node_card) \<Rightarrow> (action \<times> int) html"
where
  "Dashboard_page loc clock s hist cs =
     tag ''div'' []
       [tag ''header'' []
         [tag ''div'' []
           [tag ''div'' []
             [tag ''h2'' [] [Text ''Cluster Mission Control''],
              para ''Live telemetry from gateway stream with HTTP fallback recovery.''],
            tag ''div'' [] (map Chip (dashboard_chips loc clock s hist))]],
        tag ''section'' [] (map (\<lambda>(tv, m). Stat tv m) (zip (dashboard_stats loc (pc_nodes s) hist) stat_notes)),
        if length (pc_nodes s) = 0
        then tag ''section'' [] [Text (''Waiting for first cluster snapshot. If this takes more than a few seconds, '' @
          ''verify gateway reachability.'')]
        else Null,
        tag ''section'' [] [Arr (map (Dashboard_card loc cs) (pc_nodes s))],
        tag ''section'' [] [OpsChart clock hist, LagChart (pc_nodes s)]]"

text \<open>
  The page with the requests of its cards in flight. A card whose node is missing from a new
  snapshot is unmounted: its state is gone, and the end of its requests changes nothing. Lists
  with a repeated node are left out, the page cannot tell their cards apart.
\<close>

definition fresh_card :: node_card where
  "fresh_card = \<lparr>pendingKill = False, pendingRestart = False\<rparr>"

fun card_pending :: "action \<Rightarrow> node_card \<Rightarrow> bool" where
  "card_pending Kill c = pendingKill c"
| "card_pending Restart c = pendingRestart c"

fun card_enabled :: "action \<Rightarrow> 'a NodeMeta_scheme \<Rightarrow> node_card \<Rightarrow> bool" where
  "card_enabled Kill n c = card_kill_enabled n c"
| "card_enabled Restart n c = card_restart_enabled n c"

fun card_begin :: "action \<Rightarrow> node_card \<Rightarrow> node_card" where
  "card_begin Kill c = card_kill_begin c"
| "card_begin Restart c = card_restart_begin c"

fun card_end :: "action \<Rightarrow> fetch_result \<Rightarrow> node_card \<Rightarrow> node_card" where
  "card_end Kill fr c = card_kill_end fr c"
| "card_end Restart fr c = card_restart_end fr c"

record dash =
  d_page :: "PageNodeMeta PageClusterState"
  d_metrics :: MetricsState
  d_cards :: "int \<Rightarrow> node_card"
  d_calls :: "(action \<times> int) list"

abbreviation dash_html :: "(number \<Rightarrow> string) \<Rightarrow> (number \<Rightarrow> string) \<Rightarrow> dash \<Rightarrow> (action \<times> int) html" where
  "dash_html loc clock d \<equiv> Dashboard_page loc clock (d_page d) (m_history (d_metrics d)) (d_cards d)"

inductive dash_step :: "(number \<Rightarrow> string) \<Rightarrow> (number \<Rightarrow> string) \<Rightarrow> dash \<Rightarrow> dash \<Rightarrow> bool"
  for loc :: "number \<Rightarrow> string" and clock :: "number \<Rightarrow> string" where
  press: "(a, i) \<in> offered (dash_html loc clock d) \<Longrightarrow>
    dash_step loc clock d (d\<lparr>d_cards := (d_cards d)(i := card_begin a (d_cards d i)), d_calls := d_calls d @ [(a, i)]\<rparr>)"
| answered: "d_calls d = xs @ (a, i) # ys \<Longrightarrow>
    dash_step loc clock d (d\<lparr>d_cards := (d_cards d)(i := card_end a fr (d_cards d i)), d_calls := xs @ ys\<rparr>)"
| snapshot: "distinct (map node_id ns) \<Longrightarrow>
    dash_step loc clock d (d\<lparr>d_page := pc_setNodes now ns (d_page d),
      d_cards := (\<lambda>i. if i \<in> node_id ` set ns then d_cards d i else fresh_card),
      d_calls := filter (\<lambda>c. snd c \<in> node_id ` set ns) (d_calls d)\<rparr>)"
| sample: "dash_step loc clock d (d\<lparr>d_metrics := m_push pt (d_metrics d)\<rparr>)"
| stream_status: "dash_step loc clock d (d\<lparr>d_page := pc_setStatus st (d_page d)\<rparr>)"

inductive dash_reach :: "(number \<Rightarrow> string) \<Rightarrow> (number \<Rightarrow> string) \<Rightarrow> dash \<Rightarrow> bool"
  for loc :: "number \<Rightarrow> string" and clock :: "number \<Rightarrow> string" where
  dash_mount: "dash_reach loc clock
    \<lparr>d_page = pc_initial, d_metrics = m_initial, d_cards = (\<lambda>_. fresh_card), d_calls = []\<rparr>"
| dash_more: "dash_reach loc clock d \<Longrightarrow> dash_step loc clock d d' \<Longrightarrow> dash_reach loc clock d'"

section \<open>Lemmas\<close>

lemma clicks_NodeCard:
  "set (clicks [] (NodeCard loc n c)) =
     insert [] ((if card_kill_enabled n c then {[Kill]} else {}) \<union> (if card_restart_enabled n c then {[Restart]} else {}))"
  by (auto simp: NodeCard_def Metric_def card_metrics_def metric_tones_def)

lemma charts_inert [simp]:
  "set (clicks [] (OpsChart clock hist)) = {[]}" "set (clicks [] (LagChart ns)) = {[]}"
  "\<forall>a \<in> set (attrs (OpsChart clock hist)). only_click a" "\<forall>a \<in> set (attrs (LagChart ns)). only_click a"
  by (auto simp: OpsChart_def LagChart_def gradient_def Let_def)

lemma only_click_NodeCard: "a \<in> set (attrs (NodeCard loc n c)) \<Longrightarrow> only_click a"
  by (auto simp: NodeCard_def Metric_def card_metrics_def metric_tones_def split: if_splits)

lemma only_click_map: "only_click (map_attr f a) = only_click a"
  by (cases a) simp_all

lemma only_click_Dashboard_page: "\<forall>a \<in> set (attrs (Dashboard_page loc clock s hist cs)). only_click a"
  using charts_inert(3,4)
  by (auto simp: Dashboard_page_def Dashboard_card_def Chip_def Stat_def dashboard_stats_def stat_notes_def only_click_map
      intro: only_click_NodeCard)

lemma clicks_Dashboard_card:
  "set (clicks [] (Dashboard_card loc cs n)) =
     insert [] ((\<lambda>a. [(a, node_id n)]) ` {a. card_enabled a n (cs (node_id n))})"
proof -
  have "{a. card_enabled a n c} =
      (if card_kill_enabled n c then {Kill} else {}) \<union> (if card_restart_enabled n c then {Restart} else {})" for c
    by (rule set_eqI; rename_tac a; case_tac a) simp_all
  then show ?thesis by (simp add: Dashboard_card_def clicks_NodeCard image_Un)
qed

lemma clicks_Dashboard_page:
  "set (clicks [] (Dashboard_page loc clock s hist cs)) =
     insert [] (\<Union>n \<in> set (pc_nodes s). (\<lambda>a. [(a, node_id n)]) ` {a. card_enabled a n (cs (node_id n))})"
  by (auto simp: Dashboard_page_def clicks_Dashboard_card Chip_def Stat_def dashboard_stats_def stat_notes_def)

lemma offered_Dashboard_page:
  "(a, i) \<in> offered (Dashboard_page loc clock s hist cs) \<longleftrightarrow>
     (\<exists>n \<in> set (pc_nodes s). node_id n = i \<and> card_enabled a n (cs i))"
  unfolding offered_only_click [OF only_click_Dashboard_page] clicks_Dashboard_page by auto

lemma fresh_enabled: "card_enabled a n fresh_card \<longleftrightarrow> a = (if healthy n then Kill else Restart)"
  by (cases a) (simp_all add: fresh_card_def card_kill_enabled_def card_restart_enabled_def)

interpretation dashboard_panel: cluster_panel
  "\<lambda>ns. Dashboard_page loc clock (s\<lparr>pc_nodes := ns\<rparr>) hist (\<lambda>_. fresh_card)" for loc clock s hist
proof
  fix ns
  show "offered (Dashboard_page loc clock (s\<lparr>pc_nodes := ns\<rparr>) hist (\<lambda>_. fresh_card)) = cluster_controls ns"
    unfolding offered_only_click [OF only_click_Dashboard_page] clicks_Dashboard_page fresh_enabled
    by (auto simp: cluster_controls_def)
  show "single (Dashboard_page loc clock (s\<lparr>pc_nodes := ns\<rparr>) hist (\<lambda>_. fresh_card))"
    by (auto simp: single_def clicks_Dashboard_page)
qed

section \<open>Properties\<close>

text \<open>Charts read fields that their rows have, and fills gradients that are defined.\<close>

lemma well_formed_DashboardView: "well_formed (DashboardView loc clock ns hist)"
  by (auto simp: well_formed_def DashboardView_def DashboardView_card_def area_chart_def gradient_def chart_fields_def
      dashboard_cards_def card_icons_def)

lemma well_formed_FloatingMiniGraph: "well_formed (FloatingMiniGraph loc clock v hist st g)"
  by (auto simp: well_formed_def FloatingMiniGraph_def mini_chart_def gradient_def mini_fields_def Let_def)

lemma chartless_NodeCard: "chartless (NodeCard loc n c)"
  by (auto simp: NodeCard_def Metric_def card_metrics_def metric_tones_def)

lemma well_formed_Dashboard_page:
  "well_formed (Dashboard_page loc clock s hist cs) \<longleftrightarrow> distinct (map node_id (pc_nodes s))"
proof -
  have cards: "ids (Dashboard_card loc cs n) = []" "fills (Dashboard_card loc cs n) = []"
    "charts_ok ctx (Dashboard_card loc cs n)" "well_keyed (Dashboard_card loc cs n)" for ctx n
    using chartless_NodeCard [of loc n "cs (node_id n)"]
    by (simp_all add: Dashboard_card_def chartless_charts_ok chartless_no_ids chartless_no_fills)
      (simp add: NodeCard_def Metric_def card_metrics_def metric_tones_def)
  have chips: "ids (Chip c) = []" "fills (Chip c) = []" "charts_ok ctx (Chip c)" "well_keyed (Chip c)" for ctx c
    by (simp_all add: Chip_def)
  have keys: "key_of (Dashboard_card loc cs n) = Some (show_int (node_id n))" for n
    by (simp add: Dashboard_card_def)
  show ?thesis
    by (auto simp: well_formed_def Dashboard_page_def cards chips keys Stat_def dashboard_stats_def stat_notes_def OpsChart_def LagChart_def
        gradient_def chart_fields_def lag_fields_def Let_def comp_def)
qed

text \<open>Each button of a card has at most one request in flight, which is the one it waits for.\<close>

definition dash_inv :: "dash \<Rightarrow> bool" where
  "dash_inv d \<longleftrightarrow> distinct (map node_id (pc_nodes (d_page d))) \<and>
     (\<forall>a i. count_list (d_calls d) (a, i) = (if card_pending a (d_cards d i) then 1 else 0))"

lemma card_pending_simps [simp]:
  "card_pending a (card_begin a c)" "\<not> card_pending a (card_end a fr c)"
  "a \<noteq> b \<Longrightarrow> card_pending a (card_begin b c) = card_pending a c"
  "a \<noteq> b \<Longrightarrow> card_pending a (card_end b fr c) = card_pending a c"
  "\<not> card_pending a fresh_card"
  by (cases a; cases b; simp add: card_kill_begin_def card_restart_begin_def card_kill_end_def card_restart_end_def
      fresh_card_def)+

lemma card_enabled_pending: "card_enabled a n c \<Longrightarrow> \<not> card_pending a c"
  by (cases a) (simp_all add: card_kill_enabled_def card_restart_enabled_def)

lemma count_list_filter: "count_list (filter P xs) x = (if P x then count_list xs x else 0)"
  by (induction xs) auto

lemma distinct_count_le: "(\<And>x. count_list xs x \<le> 1) \<Longrightarrow> distinct xs"
proof (induction xs)
  case (Cons y ys)
  have "count_list ys x \<le> 1" for x using Cons.prems [of x] by (simp split: if_splits)
  moreover have "count_list ys y = 0" using Cons.prems [of y] by simp
  ultimately show ?case using Cons.IH by (simp add: count_list_0_iff)
qed simp

definition card_heading :: "'a NodeMeta_scheme \<Rightarrow> string list" where
  "card_heading n = (''Node '' @ show_int (node_id n)) # (if card_leader_badge n then [''LEADER''] else []) @
     [host n @ '':'' @ show_int (port n)]"

lemma texts_NodeCard:
  "texts_in (NodeCard loc n c) = card_heading n @ concat (map (\<lambda>m. [fst m, snd m]) (card_metrics loc n)) @
     [if pendingKill c then ''Killing...'' else ''Kill'', if pendingRestart c then ''Restarting...'' else ''Restart'']"
  by (simp add: NodeCard_def Metric_def card_metrics_def metric_tones_def card_heading_def)

lemma dash_step_inv: "dash_step loc clock d d' \<Longrightarrow> dash_inv d \<Longrightarrow> dash_inv d'"
proof (induction rule: dash_step.induct)
  case (press a i d)
  then have "\<not> card_pending a (d_cards d i)" by (auto simp: offered_Dashboard_page dest: card_enabled_pending)
  with press(2) show ?case by (auto simp: dash_inv_def)
next
  case (answered d xs a i ys fr)
  then have calls: "count_list (xs @ (a, i) # ys) (b, j) = (if card_pending b (d_cards d j) then 1 else 0)" for b j
    by (simp add: dash_inv_def)
  have "count_list (xs @ ys) (b, j) = (if card_pending b (((d_cards d)(i := card_end a fr (d_cards d i))) j) then 1 else 0)"
    for b j using calls [of b j] by (cases "(b, j) = (a, i)") (auto split: if_splits)
  with answered show ?case by (simp add: dash_inv_def)
next
  case (snapshot ns d now)
  then show ?case by (simp add: dash_inv_def count_list_filter pc_setNodes_def)
qed (simp_all add: dash_inv_def pc_setStatus_def)

lemma dash_reach_inv: "dash_reach loc clock d \<Longrightarrow> dash_inv d"
proof (induction rule: dash_reach.induct)
  case dash_mount
  then show ?case by (simp add: dash_inv_def pc_initial_def)
next
  case (dash_more d d')
  then show ?case by (blast intro: dash_step_inv)
qed

text \<open>
  C4 (safety). However the page is used and whatever arrives, a card never has two requests of one kind in
  flight: a button that works has none, and a button reads \<open>Killing...\<close> or \<open>Restarting...\<close>
  exactly while its request is out.
\<close>

theorem one_request_per_button:
  assumes "dash_reach loc clock d"
  shows "distinct (d_calls d) \<and> set (d_calls d) \<inter> offered (dash_html loc clock d) = {} \<and>
    (\<forall>n \<in> set (pc_nodes (d_page d)).
      texts_in (NodeCard loc n (d_cards d (node_id n))) =
        card_heading n @ concat (map (\<lambda>m. [fst m, snd m]) (card_metrics loc n)) @
        [if (Kill, node_id n) \<in> set (d_calls d) then ''Killing...'' else ''Kill'',
         if (Restart, node_id n) \<in> set (d_calls d) then ''Restarting...'' else ''Restart''])"
proof -
  have count: "count_list (d_calls d) (a, i) = (if card_pending a (d_cards d i) then 1 else 0)" for a i
    using dash_reach_inv [OF assms] by (simp add: dash_inv_def)
  then have pend: "(a, i) \<in> set (d_calls d) \<longleftrightarrow> card_pending a (d_cards d i)" for a i
    using count_list_0_iff [of "d_calls d" "(a, i)"] by (metis zero_neq_one)
  have "distinct (d_calls d)" by (rule distinct_count_le) (auto simp: count)
  moreover have "(a, i) \<notin> offered (dash_html loc clock d)" if "(a, i) \<in> set (d_calls d)" for a i
    using that by (auto simp: pend offered_Dashboard_page dest: card_enabled_pending)
  ultimately show ?thesis by (auto simp: pend texts_NodeCard)
qed

definition sample_node :: PageNodeMeta where
  "sample_node = \<lparr>node_id = 1, host = ''n1'', port = 7379, healthy = True, is_leader = True, ops_set = 0, ops_get = 0,
     lag_ms = 0, latency_us = 0, key_count = 0, last_seen = None, wal_seq = None\<rparr>"

theorem one_request_per_button_witness:
  "\<exists>d. d_calls d = [(Kill, 1)] \<and> (Kill, 1) \<notin> offered (dash_html num_to_string num_to_string d)"
proof -
  let ?d0 = "\<lparr>d_page = pc_initial, d_metrics = m_initial, d_cards = (\<lambda>_. fresh_card), d_calls = []\<rparr>"
  let ?d1 = "?d0\<lparr>d_page := pc_setNodes 0 [sample_node] (d_page ?d0),
      d_cards := (\<lambda>i. if i \<in> node_id ` set [sample_node] then d_cards ?d0 i else fresh_card),
      d_calls := filter (\<lambda>c. snd c \<in> node_id ` set [sample_node]) (d_calls ?d0)\<rparr>"
  let ?d2 = "?d1\<lparr>d_cards := (d_cards ?d1)(1 := card_begin Kill (d_cards ?d1 1)), d_calls := d_calls ?d1 @ [(Kill, 1)]\<rparr>"
  have "dash_reach num_to_string num_to_string ?d1" by (rule dash_more [OF dash_mount], rule snapshot) simp
  moreover have "(Kill, 1) \<in> offered (dash_html num_to_string num_to_string ?d1)"
    unfolding offered_Dashboard_page by (simp add: pc_setNodes_def sample_node_def fresh_card_def card_kill_enabled_def)
  ultimately have "dash_reach num_to_string num_to_string ?d2" by (rule dash_more [OF _ press])
  from one_request_per_button [OF this] show ?thesis by (intro exI [of _ ?d2]) auto
qed

end
