(* ===== verification/Render_Explorers.thy ===== *)
theory Render_Explorers
  imports Markup Explorer
begin

text \<open>
  The markup of the key explorers: \<open>ExplorerView\<close> of \<^verbatim>\<open>App.tsx\<close>, \<^verbatim>\<open>pages/Explorer.tsx\<close> and
  its table \<^verbatim>\<open>components/KeyTable.tsx\<close>, and the handlers of their controls.
\<close>

section \<open>ExplorerView\<close>

datatype ex_event =
    ExSetOp Op | ExExample example | ExSetKey string | ExSetValue string | ExExecute

definition Op_order :: "Op list" where
  "Op_order = [OpGET, OpSET, OpDEL, OpSCAN]"

definition explorer_steps :: "(string \<times> string) list" where
  "explorer_steps =
    [(''1) Choose Operation'', ''Select GET, SET, DEL, or SCAN based on the action you need.''),
     (''2) Fill Input'', ''Provide key (and value for SET). Use SCAN with a prefix like user:.''),
     (''3) Execute & Verify'', ''Run command and confirm status/latency/result in the history table.'')]"

definition ExplorerView_controls :: "explorer \<Rightarrow> ex_event html list" where
  "ExplorerView_controls ex =
    [tag ''div'' []
      [tag ''div'' []
        [para (''Current Operation: '' @ op_text (ex_op ex)), para (fst (operationHelp (ex_op ex)))],
       tag ''div'' [] [para ''Gateway Endpoint'', para (snd (operationHelp (ex_op ex)))]],
     tag ''div'' []
      [Arr (map (\<lambda>it. keyed (op_text it) ''button'' [OnClick (ExSetOp it),
           Cls (if ex_op ex = it then ''bg-white text-black''
                else ''bg-white/5 text-zinc-400 hover:bg-white/10 hover:text-zinc-200'')]
           [Text (op_text it)]) Op_order)],
     tag ''div'' []
      [para ''Try Quick Examples'',
       tag ''div'' [] [Arr (map (\<lambda>eg. keyed (eg_label eg) ''button'' [OnClick (ExExample eg)] [Text (eg_label eg)])
           quickExamples)]],
     tag ''div'' []
      [tag ''input'' [Attr ''value'' (ex_key ex), OnChange ExSetKey,
         Attr ''placeholder'' (if ex_op ex = OpSCAN then ''prefix...'' else ''key'')] [],
       if ex_op ex = OpSET
       then tag ''input'' [Attr ''value'' (ex_value ex), OnChange ExSetValue, Attr ''placeholder'' ''value''] []
       else Null,
       tag ''button'' [OnClick ExExecute, Disabled (\<not> execute_enabled ex)] [Text ''Execute'']]]"

definition ExplorerView_row :: "nat \<Rightarrow> explorer_row \<Rightarrow> ex_event html" where
  "ExplorerView_row i r =
     keyed (indexed_key (xr_key r) i) ''tr'' []
       [tag ''td'' [] [Text (op_text (xr_op r))],
        tag ''td'' [] [Text (xr_key r)],
        tag ''td'' [] [opt_text (xr_result r)],
        tag ''td'' [] [Text (xr_latency r)],
        tag ''td'' [Cls (if xr_ok r then ''text-emerald-300'' else ''text-rose-300'')]
          [Text (if xr_ok r then ''OK'' else ''ERR'')]]"

definition ExplorerView_body :: "explorer_row list \<Rightarrow> ex_event html" where
  "ExplorerView_body rows =
     tag ''tbody'' []
       [if length rows = 0
        then tag ''tr'' [] [tag ''td'' [Attr ''colSpan'' ''5'']
          [para ''No commands yet.'', para ''Pick an example above or run your first operation.'']]
        else Arr (map (\<lambda>(i, r). ExplorerView_row i r) (enumerate 0 rows))]"

definition table_head :: "'e html" where
  "table_head = tag ''thead'' [] [tag ''tr'' []
     (map (\<lambda>s. tag ''th'' [] [Text s]) [''op'', ''key'', ''result'', ''latency'', ''status''])]"

definition ExplorerView :: "explorer \<Rightarrow> ex_event html" where
  "ExplorerView ex =
     tag ''div'' []
       [tag ''div'' []
         [tag ''h2'' [] [Text ''Key Explorer''], para ''Direct command console for reading and writing keys''],
        tag ''div'' [] [Arr (map (\<lambda>(title, body). keyed title ''div'' [] [para title, para body]) explorer_steps)],
        tag ''div'' []
         (ExplorerView_controls ex @
          [tag ''div'' [] [tag ''table'' [] [table_head, ExplorerView_body (ex_rows ex)]]])]"

text \<open>The handlers; \<open>ExExecute\<close> starts a command and changes no input.\<close>

fun ex_handle :: "ex_event \<Rightarrow> explorer \<Rightarrow> explorer" where
  "ex_handle (ExSetOp op) ex = ex\<lparr>ex_op := op\<rparr>"
| "ex_handle (ExExample eg) ex = applyExample eg ex"
| "ex_handle (ExSetKey k) ex = ex\<lparr>ex_key := k\<rparr>"
| "ex_handle (ExSetValue v) ex = ex\<lparr>ex_value := v\<rparr>"
| "ex_handle ExExecute ex = ex"

text \<open>
  The view with its commands in flight, each with the inputs it was started with. An event of
  the page happens when the page offers it; a request ends at any time.
\<close>

record ex_sys =
  ex_view :: explorer
  ex_calls :: "explorer list"

inductive ex_step :: "vite_env \<Rightarrow> (string \<Rightarrow> string) \<Rightarrow> ex_sys \<Rightarrow> ex_sys \<Rightarrow> bool"
  for env :: vite_env and tmsg :: "string \<Rightarrow> string" where
  ex_input: "e \<in> offered (ExplorerView (ex_view c)) \<Longrightarrow> e \<noteq> ExExecute \<Longrightarrow>
    ex_step env tmsg c (c\<lparr>ex_view := ex_handle e (ex_view c)\<rparr>)"
| ex_start: "ExExecute \<in> offered (ExplorerView (ex_view c)) \<Longrightarrow> execute_begin env (ex_view c) = Some req \<Longrightarrow>
    ex_step env tmsg c (c\<lparr>ex_calls := ex_calls c @ [ex_view c]\<rparr>)"
| ex_finish: "k < length (ex_calls c) \<Longrightarrow>
    ex_step env tmsg c (c\<lparr>ex_view := execute_end tmsg (ex_calls c ! k) el fr (ex_view c),
      ex_calls := take k (ex_calls c) @ drop (Suc k) (ex_calls c)\<rparr>)"

inductive ex_reach :: "vite_env \<Rightarrow> (string \<Rightarrow> string) \<Rightarrow> ex_sys \<Rightarrow> bool"
  for env :: vite_env and tmsg :: "string \<Rightarrow> string" where
  ex_mount: "ex_reach env tmsg \<lparr>ex_view = explorer_init, ex_calls = []\<rparr>"
| ex_more: "ex_reach env tmsg c \<Longrightarrow> ex_step env tmsg c c' \<Longrightarrow> ex_reach env tmsg c'"

section \<open>The table of the page\<close>

definition KeyTable_row :: "nat \<Rightarrow> ResultRow \<Rightarrow> 'e html" where
  "KeyTable_row idx r =
     keyed (indexed_key (num_to_string (rr_ts r)) idx) ''tr'' []
       [tag ''td'' [] [Text (op_text (rr_op r))],
        tag ''td'' [] [Text (rr_key r)],
        tag ''td'' [] [Text (nullish (rr_value r) (nullish (rr_error r) ''-''))],
        tag ''td'' [] [Text (toFixed 1 (rr_latency_ms r) @ ''ms'')],
        tag ''td'' [] [tag ''span'' [Cls (if rr_ok r then ''text-emerald-300'' else ''text-red-400'')]
          [Text (if rr_ok r then ''OK'' else ''ERR'')]]]"

definition KeyTable :: "ResultRow list \<Rightarrow> 'e html" where
  "KeyTable rows =
     tag ''div'' [] [tag ''table'' []
       [table_head,
        tag ''tbody'' []
         [if 0 < length rows then Arr (map (\<lambda>(idx, r). KeyTable_row idx r) (enumerate 0 rows))
          else tag ''tr'' [] [tag ''td'' [Attr ''colSpan'' ''5''] [Text ''Run an operation to see live results.'']]]]]"

section \<open>The page\<close>

definition enter_runs :: "string \<Rightarrow> pe_event option" where
  "enter_runs key = (if key = ''Enter'' then Some EnterKey else None)"

definition node_select :: "number option \<Rightarrow> 'a NodeMeta_scheme list \<Rightarrow> pe_event html" where
  "node_select node ns =
     tag ''select'' [Attr ''value'' (nullish (map_option num_to_string node) []), OnPick SelectNode]
       [tag ''option'' [Attr ''value'' []] [Text ''Leader (default)''],
        Arr (map (\<lambda>n. keyed (show_int (node_id n)) ''option'' [Attr ''value'' (show_int (node_id n))]
             [Text (''Node '' @ show_int (node_id n))]) (sortedNodes ns))]"

definition Explorer_page :: "'a NodeMeta_scheme list \<Rightarrow> page_explorer \<Rightarrow> pe_event html" where
  "Explorer_page ns pe =
     tag ''div'' []
       [tag ''header'' []
         [tag ''h2'' [] [Text ''Key Explorer''],
          para ''Execute real GET/SET/DEL/SCAN operations against live cluster nodes.''],
        tag ''section'' []
         [tag ''div'' []
           [Arr (map (\<lambda>item. keyed (op_text item) ''button'' [OnClick (SetOp item),
                Cls (if pe_op pe = item then ''bg-white text-ink-950'' else ''bg-white/5 text-zinc-300 hover:bg-white/10'')]
                [Text (op_text item)]) Op_order),
            node_select (pe_node pe) ns],
          tag ''div'' []
           [tag ''input'' [Attr ''value'' (pe_key pe), OnChange SetKey, OnKeyDown enter_runs,
              Attr ''placeholder'' (if pe_op pe = OpSCAN then ''prefix (optional, for example user:)'' else ''key'')] [],
            if pe_op pe = OpSET
            then tag ''input'' [Attr ''value'' (pe_val pe), OnChange SetVal, OnKeyDown enter_runs,
              Attr ''placeholder'' ''value''] []
            else Null,
            tag ''button'' [OnClick RunButton, Disabled (\<not> run_button_enabled pe)]
              [Text (if pe_loading pe then ''Running...'' else ''Run'')]],
          tag ''div'' []
           [tag ''button'' [OnClick SampleSet] [Text ''sample set''],
            tag ''button'' [OnClick SampleGet] [Text ''sample get''],
            tag ''span'' [] [Text (''history '' @ show_nat (length (pe_history pe)) @ ''/100'')]]],
        KeyTable (pe_history pe)]"

section \<open>What the pages accept\<close>

lemma Op_order_all [simp]: "set Op_order = UNIV" "distinct Op_order"
proof -
  show "set Op_order = UNIV" using Op.exhaust by (auto simp: Op_order_def)
qed (simp add: Op_order_def)

lemma op_text_inject [simp]: "op_text a = op_text b \<longleftrightarrow> a = b"
  by (cases a; cases b) simp_all

lemma KeyTable_inert [simp]: "set (clicks [] (KeyTable rows)) = {[]}" "OnChange f \<notin> set (attrs (KeyTable rows))"
  "OnKeyDown g \<notin> set (attrs (KeyTable rows))" "OnMouseEnter e \<notin> set (attrs (KeyTable rows))"
  "picks (KeyTable rows) = []"
  by (auto simp: KeyTable_def KeyTable_row_def table_head_def enumerate_eq_zip)

lemma clicks_Explorer_page:
  "set (clicks [] (Explorer_page ns pe)) =
     {[], [SampleSet], [SampleGet]} \<union> range (\<lambda>op. [SetOp op]) \<union> (if run_button_enabled pe then {[RunButton]} else {})"
  by (auto simp: Explorer_page_def node_select_def)

lemma attrs_Explorer_page:
  "OnChange f \<in> set (attrs (Explorer_page ns pe)) \<longleftrightarrow> f = SetKey \<or> (pe_op pe = OpSET \<and> f = SetVal)"
  "OnKeyDown g \<in> set (attrs (Explorer_page ns pe)) \<longleftrightarrow> g = enter_runs"
  "OnMouseEnter e \<notin> set (attrs (Explorer_page ns pe))"
  by (auto simp: Explorer_page_def node_select_def)

lemma picks_Explorer_page:
  "set (picks (Explorer_page ns pe)) = insert (SelectNode []) ((\<lambda>n. SelectNode (show_int (node_id n))) ` set ns)"
proof -
  have "set (sortedNodes ns) = set ns" by (simp add: sortedNodes_def)
  then show ?thesis by (auto simp: Explorer_page_def node_select_def)
qed

lemma offered_Explorer_page:
  "e \<in> offered (Explorer_page ns pe) \<longleftrightarrow>
     (case e of Finish k el now fr \<Rightarrow> False | SetVal v \<Rightarrow> pe_op pe = OpSET | RunButton \<Rightarrow> run_button_enabled pe
      | SelectNode v \<Rightarrow> v = [] \<or> v \<in> show_int ` node_id ` set ns | _ \<Rightarrow> True)"
proof -
  have "(\<exists>key. enter_runs key = Some e) \<longleftrightarrow> e = EnterKey" by (auto simp: enter_runs_def)
  then show ?thesis
    by (cases e) (auto simp: offered_iff clicks_Explorer_page attrs_Explorer_page picks_Explorer_page)
qed

lemma clicks_ExplorerView:
  "set (clicks [] (ExplorerView ex)) =
     insert [] (range (\<lambda>op. [ExSetOp op])) \<union> (\<lambda>eg. [ExExample eg]) ` set quickExamples \<union>
     (if execute_enabled ex then {[ExExecute]} else {})"
  by (auto simp: ExplorerView_def ExplorerView_controls_def ExplorerView_body_def ExplorerView_row_def table_head_def
      explorer_steps_def)

lemma attrs_ExplorerView:
  "OnChange f \<in> set (attrs (ExplorerView ex)) \<longleftrightarrow> f = ExSetKey \<or> (ex_op ex = OpSET \<and> f = ExSetValue)"
  "OnKeyDown g \<notin> set (attrs (ExplorerView ex))"
  "OnMouseEnter e \<notin> set (attrs (ExplorerView ex))"
  "picks (ExplorerView ex) = []"
  by (auto simp: ExplorerView_def ExplorerView_controls_def ExplorerView_body_def ExplorerView_row_def table_head_def
      explorer_steps_def)

lemma offered_ExplorerView:
  "e \<in> offered (ExplorerView ex) \<longleftrightarrow>
     (case e of ExExample eg \<Rightarrow> eg \<in> set quickExamples | ExSetValue v \<Rightarrow> ex_op ex = OpSET
      | ExExecute \<Rightarrow> execute_enabled ex | _ \<Rightarrow> True)"
  by (cases e) (auto simp: offered_iff clicks_ExplorerView attrs_ExplorerView bex_Un)

lemma chartless_ExplorerView: "chartless (ExplorerView ex)"
  by (auto simp: ExplorerView_def ExplorerView_controls_def ExplorerView_body_def ExplorerView_row_def
      table_head_def explorer_steps_def)

lemma well_formed_ExplorerView: "well_formed (ExplorerView ex)"
proof -
  have "well_keyed (ExplorerView ex)"
    using distinct_indexed [of xr_key "ex_rows ex"]
    by (auto simp: ExplorerView_def ExplorerView_controls_def ExplorerView_body_def ExplorerView_row_def
        table_head_def explorer_steps_def comp_def case_prod_beta quickExamples_def distinct_map inj_on_def)
  then show ?thesis by (simp add: well_formed_chartless chartless_ExplorerView)
qed

lemma distinct_iff_card: "distinct xs \<longleftrightarrow> card (set xs) = length xs"
  by (metis card_distinct distinct_card)

lemma well_formed_Explorer_page: "well_formed (Explorer_page ns pe) \<longleftrightarrow> distinct (map node_id ns)"
proof -
  have "chartless (Explorer_page ns pe)"
    by (auto simp: Explorer_page_def node_select_def KeyTable_def KeyTable_row_def table_head_def)
  moreover have "distinct (map node_id (sortedNodes ns)) \<longleftrightarrow> distinct (map node_id ns)"
    unfolding sortedNodes_def distinct_iff_card by simp
  then have "well_keyed (Explorer_page ns pe) \<longleftrightarrow> distinct (map node_id ns)"
    using distinct_indexed [of "\<lambda>r. num_to_string (rr_ts r)" "pe_history pe"]
    by (auto simp: Explorer_page_def node_select_def KeyTable_def KeyTable_row_def table_head_def comp_def
        case_prod_beta distinct_map inj_on_def)
  ultimately show ?thesis by (simp add: well_formed_chartless)
qed

section \<open>Properties\<close>

text \<open>
  C29 (equivalence). The page is the state machine: what a user can do on the rendered page is exactly the events
  that its machine allows with the nodes shown, and a click is never taken for two of them. In
  particular the Run button works exactly when no command is shown as running and the inputs
  are complete, a value can be edited exactly for SET, and a node can be chosen exactly when it
  is one of those shown.
\<close>

theorem page_explorer_gestures:
  "(e \<in> offered (Explorer_page ns (page c)) \<longleftrightarrow>
     (\<exists>c'. pe_step env tmsg ns c e c') \<and> (\<nexists>k el now fr. e = Finish k el now fr)) \<and>
   single (Explorer_page ns (page c))"
proof
  show "single (Explorer_page ns (page c))" by (auto simp: single_def clicks_Explorer_page)
  show "e \<in> offered (Explorer_page ns (page c)) \<longleftrightarrow>
     (\<exists>c'. pe_step env tmsg ns c e c') \<and> (\<nexists>k el now fr. e = Finish k el now fr)"
    unfolding offered_Explorer_page by (cases e) (auto intro: pe_step.intros elim: pe_step.cases)
qed

text \<open>The rows of the tables of a page below their headings, each as the texts of its cells.\<close>

fun table_rows :: "'e html \<Rightarrow> string list list" where
  "table_rows (Arr hs) = concat (map table_rows hs)"
| "table_rows (El t k as cs) =
     (if t = ''thead'' then [] else if t = ''tr'' then [map (\<lambda>c. concat (texts_in c)) cs] else concat (map table_rows cs))"
| "table_rows _ = []"

definition readable :: "fetch_result \<Rightarrow> bool" where
  "readable fr \<longleftrightarrow> (\<exists>res j. fr = Inr res \<and> body res = Inr j \<and> j \<noteq> JNull)"

lemma execute_row_key:
  "xr_key (execute_row tmsg op key el fr) = (if key = [] \<and> readable fr then ''(prefix)'' else key)"
  using execute_result_JNull [of tmsg op] execute_result_Inl [of tmsg op]
  by (fastforce simp: execute_row_def res_json_def readable_def Let_def split: sum.splits)

lemma execute_row_op: "xr_op (execute_row tmsg op key el fr) = op"
  by (simp add: execute_row_def Let_def split: sum.split)

lemma pe_row_fields:
  "rr_op (pe_row tmsg op key el now fr) = op"
  "rr_key (pe_row tmsg op key el now fr) = (if key = [] then ''(empty-prefix)'' else key)"
  by (simp_all add: pe_row_def Let_def split: sum.split)

lemma concat_map_enumerate: "concat (map (\<lambda>x. [f (snd x)]) (enumerate k xs)) = map f xs"
  by (induction xs arbitrary: k) simp_all

lemma texts_opt_text: "concat (texts_in (opt_text s)) = nullish s []"
  by (cases s) simp_all

lemma ExplorerView_rows:
  "table_rows (ExplorerView ex) = (if ex_rows ex = []
     then [[''No commands yet.Pick an example above or run your first operation.'']]
     else map (\<lambda>r. [op_text (xr_op r), xr_key r, nullish (xr_result r) [], xr_latency r, if xr_ok r then ''OK'' else ''ERR'']) (ex_rows ex))"
  using concat_map_enumerate [of "\<lambda>r. [op_text (xr_op r), xr_key r, nullish (xr_result r) [], xr_latency r, if xr_ok r then ''OK'' else ''ERR'']" 0 "ex_rows ex"]
  by (simp add: ExplorerView_def ExplorerView_controls_def ExplorerView_body_def ExplorerView_row_def table_head_def
      explorer_steps_def comp_def case_prod_beta texts_opt_text)

lemma Explorer_page_rows:
  "table_rows (Explorer_page ns pe) = (if pe_history pe = [] then [[''Run an operation to see live results.'']]
     else map (\<lambda>r. [op_text (rr_op r), rr_key r, nullish (rr_value r) (nullish (rr_error r) ''-''),
       toFixed 1 (rr_latency_ms r) @ ''ms'', if rr_ok r then ''OK'' else ''ERR'']) (pe_history pe))"
  using concat_map_enumerate [of "\<lambda>r. [op_text (rr_op r), rr_key r, nullish (rr_value r) (nullish (rr_error r) ''-''),
       toFixed 1 (rr_latency_ms r) @ ''ms'', if rr_ok r then ''OK'' else ''ERR'']" 0 "pe_history pe"]
  by (simp add: Explorer_page_def node_select_def KeyTable_def KeyTable_row_def table_head_def comp_def case_prod_beta)

text \<open>
  C30 (functional). The tables tell what was run: when a command ends, the table of the rendered page has one
  row more on top of the rows it had (at most fifty, or a hundred on the page set), with the
  operation and the key the command was started with, its result and latency, and OK exactly if
  the gateway answered with a success status and a readable body; a table without commands
  has the placeholder instead. The page around it can be rendered whatever the keys are.
\<close>

theorem tables_show_rows:
  "table_rows (ExplorerView (execute_end tmsg ex0 el fr ex)) = take 50
     ((let r = execute_row tmsg (ex_op ex0) (ex_key ex0) el fr in
       [op_text (ex_op ex0), if ex_key ex0 = [] \<and> readable fr then ''(prefix)'' else ex_key ex0,
        nullish (xr_result r) [], xr_latency r, if readable_ok fr then ''OK'' else ''ERR'']) #
      (if ex_rows ex = [] then [] else table_rows (ExplorerView ex))) \<and>
   table_rows (Explorer_page ns (pe_end tmsg pe0 el now fr pe)) = take 100
     ((let r = pe_row tmsg (pe_op pe0) (trim (pe_key pe0)) el now fr in
       [op_text (pe_op pe0), if trim (pe_key pe0) = [] then ''(empty-prefix)'' else trim (pe_key pe0),
        nullish (rr_value r) (nullish (rr_error r) ''-''), toFixed 1 (rr_latency_ms r) @ ''ms'', if readable_ok fr then ''OK'' else ''ERR'']) #
      (if pe_history pe = [] then [] else table_rows (Explorer_page ns pe))) \<and>
   table_rows (ExplorerView explorer_init) = [[''No commands yet.Pick an example above or run your first operation.'']] \<and>
   table_rows (Explorer_page ns pe_init) = [[''Run an operation to see live results.'']] \<and>
   well_formed (ExplorerView ex) \<and> (well_formed (Explorer_page ns pe) \<longleftrightarrow> distinct (map node_id ns))"
proof (intro conjI)
  show "table_rows (ExplorerView (execute_end tmsg ex0 el fr ex)) = take 50
     ((let r = execute_row tmsg (ex_op ex0) (ex_key ex0) el fr in
       [op_text (ex_op ex0), if ex_key ex0 = [] \<and> readable fr then ''(prefix)'' else ex_key ex0,
        nullish (xr_result r) [], xr_latency r, if readable_ok fr then ''OK'' else ''ERR'']) #
      (if ex_rows ex = [] then [] else table_rows (ExplorerView ex)))"
    by (simp add: ExplorerView_rows execute_end_def add_row_def execute_row_key execute_row_op execute_row_ok Let_def take_map)
  show "table_rows (Explorer_page ns (pe_end tmsg pe0 el now fr pe)) = take 100
     ((let r = pe_row tmsg (pe_op pe0) (trim (pe_key pe0)) el now fr in
       [op_text (pe_op pe0), if trim (pe_key pe0) = [] then ''(empty-prefix)'' else trim (pe_key pe0),
        nullish (rr_value r) (nullish (rr_error r) ''-''), toFixed 1 (rr_latency_ms r) @ ''ms'', if readable_ok fr then ''OK'' else ''ERR'']) #
      (if pe_history pe = [] then [] else table_rows (Explorer_page ns pe)))"
    by (simp add: Explorer_page_rows pe_end_def pe_add_row_def pe_row_fields pe_row_ok Let_def take_map)
qed (simp_all add: ExplorerView_rows Explorer_page_rows explorer_init_def pe_init_def well_formed_ExplorerView well_formed_Explorer_page)

definition ex_inv :: "ex_sys \<Rightarrow> bool" where
  "ex_inv c \<longleftrightarrow> (\<forall>ex0 \<in> set (ex_calls c). execute_enabled ex0) \<and> length (ex_rows (ex_view c)) \<le> 50"

lemma ex_mount_inv: "ex_inv \<lparr>ex_view = explorer_init, ex_calls = []\<rparr>"
  by (simp add: ex_inv_def explorer_init_def)

lemma ex_step_inv: "ex_step env tmsg c c' \<Longrightarrow> ex_inv c \<Longrightarrow> ex_inv c'"
proof (induction rule: ex_step.induct)
  case (ex_input e c)
  then show ?case by (cases e) (simp_all add: ex_inv_def applyExample_def)
next
  case (ex_finish k c el fr)
  then show ?case using rows_log.push_le_cap
    by (auto simp: ex_inv_def execute_end_def dest: in_set_takeD in_set_dropD)
qed (auto simp: ex_inv_def execute_begin_def split: if_splits)

text \<open>
  In every state the explorer can reach, the Execute button works exactly when a press sends a
  request, every command in flight was started with a key or as a scan, and at most fifty rows
  are shown.
\<close>

theorem explorer_view_invariant:
  assumes "ex_reach env tmsg c"
  shows "(ExExecute \<in> offered (ExplorerView (ex_view c)) \<longleftrightarrow> execute_begin env (ex_view c) \<noteq> None) \<and>
    (\<forall>ex0 \<in> set (ex_calls c). ex_key ex0 \<noteq> [] \<or> ex_op ex0 = OpSCAN) \<and> length (ex_rows (ex_view c)) \<le> 50"
proof -
  have "ex_inv c" using assms by (induction rule: ex_reach.induct) (auto intro: ex_step_inv ex_mount_inv)
  then show ?thesis by (auto simp: ex_inv_def offered_ExplorerView execute_begin_def execute_enabled_def)
qed

theorem explorer_view_invariant_witness:
  "ExExecute \<notin> offered (ExplorerView explorer_init)"
  using explorer_view_invariant [OF ex_mount [of "\<lparr>VITE_API_BASE_URL = None, VITE_WS_BASE_URL = None\<rparr>" "\<lambda>k. k"]]
  by (simp add: execute_begin_def execute_enabled_def explorer_init_def)

end
