(* ===== verification/Render_Raft.thy ===== *)
theory Render_Raft
  imports Markup RaftViews
begin

text \<open>
  The markup of the consensus views: \<open>RaftView\<close> of \<^verbatim>\<open>App.tsx\<close> and \<^verbatim>\<open>pages/Raft.tsx\<close>. The
  event of a button is the action it starts and the node it is for. \<open>now i\<close> is the time of day
  when line \<open>i\<close> of the stream is rendered, \<open>clock\<close> formats the time of an event.
\<close>

section \<open>RaftView\<close>

definition RaftView_node :: "NodeMeta \<Rightarrow> (action \<times> int) html" where
  "RaftView_node n =
     keyed (show_int (node_id n)) ''div''
       (if is_leader n then [Cls ''border border-blue-500/35 bg-blue-500/[0.03]''] else [])
       [tag ''div'' []
         [tag ''div'' []
           [tag ''div'' [Cls (if healthy n then ''bg-emerald-400'' else ''bg-rose-500'')] [],
            para (''Node '' @ show_int (node_id n))],
          tag ''span'' [] [Text (if is_leader n then ''Leader'' else ''Follower'')]],
        tag ''div'' []
         [tag ''button'' [OnClick (Kill, node_id n), Disabled (\<not> raft_kill_enabled n)]
           [icon ''Power'', Text ''Kill''],
          tag ''button'' [OnClick (Restart, node_id n), Disabled (\<not> raft_restart_enabled n)]
           [icon ''RefreshCw'', Text ''Restart'']]]"

definition RaftView :: "(nat \<Rightarrow> string) \<Rightarrow> NodeMeta list \<Rightarrow> raft_events \<Rightarrow> (action \<times> int) html" where
  "RaftView now ns evs =
     tag ''div'' []
       [tag ''h2'' [] [Text ''Raft Consensus''],
        tag ''div'' []
         [tag ''div'' [] [Arr (map RaftView_node ns)],
          tag ''div'' []
           [tag ''div'' [] [icon ''Terminal'', tag ''span'' [] [Text ''Consensus Stream'']],
            tag ''div'' []
             [Arr (map (\<lambda>(idx, e). keyed (indexed_key e idx) ''p'' [] [Text (''['' @ now idx @ ''] '' @ e)])
                (enumerate 0 evs))]]]]"

section \<open>The page\<close>

definition Raft_node_class :: "'a NodeMeta_scheme \<Rightarrow> string" where
  "Raft_node_class n =
     (if is_leader n then ''border-sky-400/50 bg-sky-500/10''
      else if healthy n then ''border-white/10 bg-black/30'' else ''border-red-400/30 bg-red-500/10'')"

definition Raft_node :: "'a NodeMeta_scheme \<Rightarrow> (action \<times> int) html" where
  "Raft_node n =
     keyed (show_int (node_id n)) ''div'' [Cls (Raft_node_class n)]
       [tag ''div'' []
         [tag ''span'' [Cls (if healthy n then (if is_leader n then ''bg-sky-400'' else ''bg-teal-400'') else ''bg-red-500'')] [],
          tag ''span'' [] [Text (''Node '' @ show_int (node_id n) @ '' '' @
            (if is_leader n then ''(LEADER)'' else ''(follower)''))]],
        tag ''div'' []
         [tag ''button'' [OnClick (Kill, node_id n), Disabled (\<not> healthy n)] [Text ''Kill''],
          tag ''button'' [OnClick (Restart, node_id n), Disabled (healthy n)] [Text ''Restart'']]]"

definition Raft_page :: "(number \<Rightarrow> string) \<Rightarrow> 'a NodeMeta_scheme list \<Rightarrow> EventRow list \<Rightarrow> (action \<times> int) html" where
  "Raft_page clock ns evs =
     tag ''div'' []
       [tag ''section'' [] [tag ''h2'' [] [Text ''Cluster Topology''], Arr (map Raft_node ns)],
        tag ''section'' []
         [tag ''h2'' [] [Text ''Raft Event Log''],
          tag ''div'' []
           [Arr (map (\<lambda>(i, ev). keyed (indexed_key (num_to_string (ev_ts ev)) i) ''div'' []
                 [tag ''span'' [] [Text (clock (ev_ts ev))],
                  tag ''span'' [Cls (ev_color ev)] [Text (ev_msg ev)]])
              (enumerate 0 evs))]]]"

section \<open>What the views offer\<close>

lemma clicks_RaftView_node:
  "set (clicks [] (RaftView_node n)) = {[], [(if healthy n then Kill else Restart, node_id n)]}"
  by (auto simp: RaftView_node_def raft_kill_enabled_def raft_restart_enabled_def)

lemma clicks_Raft_node:
  "set (clicks [] (Raft_node n)) = {[], [(if healthy n then Kill else Restart, node_id n)]}"
  by (auto simp: Raft_node_def)

lemma clicks_views:
  "set (clicks [] (RaftView now ns evs)) =
     insert [] ((\<lambda>n. [(if healthy n then Kill else Restart, node_id n)]) ` set ns)"
  "set (clicks [] (Raft_page clock ms rows)) =
     insert [] ((\<lambda>n. [(if healthy n then Kill else Restart, node_id n)]) ` set ms)"
  by (auto simp: RaftView_def clicks_RaftView_node Raft_page_def clicks_Raft_node)

lemma only_click_views:
  "\<forall>a \<in> set (attrs (RaftView now ns evs)). only_click a"
  "\<forall>a \<in> set (attrs (Raft_page clock ms rows)). only_click a"
  by (auto simp: RaftView_def RaftView_node_def Raft_page_def Raft_node_def)

lemma offered_views:
  "offered (RaftView now ns evs) = cluster_controls ns"
  "offered (Raft_page clock ms rows) = cluster_controls ms"
  by (simp_all only: offered_only_click [OF only_click_views(1)] offered_only_click [OF only_click_views(2)]
      clicks_views cluster_controls_def) auto

lemma chartless_RaftView: "chartless (RaftView now ns evs)"
  by (auto simp: RaftView_def RaftView_node_def)

lemma well_formed_RaftView: "well_formed (RaftView now ns evs) \<longleftrightarrow> distinct (map node_id ns)"
proof -
  have "well_keyed (RaftView now ns evs) \<longleftrightarrow> distinct (map node_id ns)"
    using distinct_indexed [of "\<lambda>e. e" evs]
    by (simp add: RaftView_def RaftView_node_def comp_def case_prod_beta image_iff)
  then show ?thesis by (simp add: well_formed_chartless chartless_RaftView)
qed

section \<open>Interfaces\<close>

interpretation raft_panel: cluster_panel "\<lambda>ns. RaftView now ns evs" for now evs
  by unfold_locales (auto simp: offered_views single_def clicks_views)

interpretation page_raft_panel: cluster_panel "\<lambda>ns. Raft_page clock ns rows" for clock rows
  by unfold_locales (auto simp: offered_views single_def clicks_views)

section \<open>Properties\<close>

text \<open>
  C31 (safety). In every state the store can reach, with any requests in flight, the view shows a node that
  the user forced down as what it is: its card says \<open>Follower\<close>, and its one working button
  is the restart.
\<close>

theorem forced_down_shown:
  assumes "store_run tmsg initialSys es c" "n \<in> set (nodes (store c))"
    "node_id n \<in> set (forcedDownNodeIds (store c))"
  shows "texts_in (RaftView_node n) = [''Node '' @ show_int (node_id n), ''Follower'', ''Kill'', ''Restart''] \<and>
    (\<forall>a. (a, node_id n) \<in> offered (RaftView now (nodes (store c)) evs) \<longleftrightarrow> a = Restart)"
proof -
  have "sys_inv initialSys" by (simp add: initialSys_def sys_inv_def store_inv_initial)
  then have inv: "store_inv (store c)" using store_run_inv [OF assms(1)] by (simp add: sys_inv_def)
  then have "\<not> is_leader n" using assms(2,3) by (simp add: store_inv_def)
  then show ?thesis using raft_panel.forced_down_restart_only [OF inv assms(2,3)] by (simp add: RaftView_node_def)
qed

theorem forced_down_shown_witness:
  "(Restart, 1) \<in> offered (RaftView (\<lambda>_. []) (nodes (killNode_begin 1 initialState)) raft_init)"
proof -
  define c where "c = \<lparr>store = begin_action Kill 1 (store initialSys),
     inflight = inflight initialSys @ [\<lparr>act = Kill, target = 1, previous = store initialSys\<rparr>]\<rparr>"
  define n where "n = force_down (initial_node 1 ''vaultkv-node1'' 7379 True 120)"
  have "store_run (\<lambda>s. s) initialSys [Begin Kill 1] c" by (simp add: c_def)
  moreover have "n \<in> set (nodes (store c))" "node_id n \<in> set (forcedDownNodeIds (store c))"
    by (simp_all add: c_def n_def initialSys_def begin_action_def killNode_begin_def initialState_def
        applyForcedDown_def add_forced_def initial_node_def)
  moreover have "store c = killNode_begin 1 initialState" "node_id n = 1"
    by (simp_all add: c_def n_def initialSys_def begin_action_def initial_node_def)
  ultimately show ?thesis using forced_down_shown [of "\<lambda>s. s" "[Begin Kill 1]" c n "\<lambda>_. []" raft_init] by simp
qed

end
