(* ===== verification/ArchitectureView.thy ===== *)
theory ArchitectureView
  imports TraceRunner
begin

text \<open>
  The rest of \<open>ArchitectureView\<close> in \<^verbatim>\<open>frontend/src/App.tsx\<close>: the header figures, the module
  map with its rotating focus, the lifecycle list next to the stages of the trace, and the
  quorum bar. \<open>loc\<close> is the platform's number formatting.
\<close>

section \<open>Data\<close>

record page_module =
  pm_id :: string
  pm_title :: string
  pm_goal :: string
  pm_input :: string
  pm_output :: string
  pm_signal :: string

definition trace_signal :: "trace_result option \<Rightarrow> string" where
  "trace_signal tr = (case tr of
     Some r \<Rightarrow> (if tr_ok r then ''Trace success'' else ''Trace failed'') @
       [CHR '' '', CHR 0xB7, CHR '' ''] @ toFixed 2 (tr_latencyMs r) @ ''ms''
   | None \<Rightarrow> ''Ready to run trace'')"

definition pageModules ::
  "(number \<Rightarrow> string) \<Rightarrow> NodeMeta list \<Rightarrow> MetricsPoint list \<Rightarrow> trace_result option \<Rightarrow> page_module list"
where
  "pageModules loc ns hist tr =
    [\<lparr>pm_id = ''overview'', pm_title = ''Overview'', pm_goal = ''Operational health at a glance'',
      pm_input = ''Live WebSocket metrics + cluster snapshot'',
      pm_output = ''Throughput chart, latency profile, node summary'',
      pm_signal = loc (throughput hist) @ '' ops/s live''\<rparr>,
     \<lparr>pm_id = ''explorer'', pm_title = ''Explorer'', pm_goal = ''Direct key-value operations'',
      pm_input = ''GET / SET / DEL / SCAN requests'',
      pm_output = ''Low-latency responses with operation history'',
      pm_signal = ''Gateway API path verification''\<rparr>,
     \<lparr>pm_id = ''consensus'', pm_title = ''Consensus'', pm_goal = ''Fault tolerance and leader behavior'',
      pm_input = ''Node kill/restart actions + replication state'',
      pm_output = ''Election events, leader transitions, quorum behavior'',
      pm_signal = (case leader ns of Some l \<Rightarrow> ''Leader Node '' @ show_int (node_id l) | None \<Rightarrow> ''Leader unavailable'')\<rparr>,
     \<lparr>pm_id = ''architecture'', pm_title = ''Architecture'', pm_goal = ''End-to-end request lifecycle proof'',
      pm_input = ''Trace runner command payload'',
      pm_output = ''Stage-by-stage runtime and commit result'',
      pm_signal = trace_signal tr\<rparr>]"

definition pillars :: "(string \<times> string \<times> string) list" where
  "pillars =
    [(''Frontend'', ''React + Motion'',
      ''Operator console with live charts, topology controls, and failure simulation.''),
     (''Gateway'', ''FastAPI TLV Bridge'',
      ''REST/WS ingress that validates payloads and translates them into compact TLV frames.''),
     (''Engine'', ''C++17 + epoll'',
      ''Low-latency event loop with WAL, MemTable updates, and background compaction.''),
     (''Consensus'', ''Raft + Quorum ACK'',
      ''Leader replicates logs to followers; write is acked only after majority confirmation.'')]"

definition lifecycle :: "NodeMeta list \<Rightarrow> (string \<times> string) list" where
  "lifecycle ns =
    [(''Client Request'', ''Client sends GET/SET/DEL command over HTTPS or WebSocket to FastAPI ingress.''),
     (''TLV Translation'', ''Gateway normalizes request, adds metadata, and serializes as compact TLV frame.''),
     (''Leader WAL Commit'', ''Leader node '' @
        (case leader ns of Some l \<Rightarrow> show_int (node_id l) | None \<Rightarrow> ''?'') @
        '' appends encrypted entry to WAL before replication.''),
     (''Quorum Replication'', ''Entry is replicated to followers until quorum '' @ show_nat (quorum ns) @ ''/'' @
        show_nat (length ns) @ '' is reached.''),
     (''Client ACK'', ''Gateway returns success only after majority ACK, guaranteeing linearizable writes.'')]"

section \<open>Figures\<close>

definition header_figures :: "(number \<Rightarrow> string) \<Rightarrow> NodeMeta list \<Rightarrow> MetricsPoint list \<Rightarrow> (string \<times> string \<times> string) list"
where
  "header_figures loc ns hist =
    [(''Live Throughput'', loc (throughput hist), ''ops/sec combined''),
     (''Consensus State'', if quorumReached ns then ''Quorum Ready'' else ''Degraded'',
      counts_text ns @ '' healthy nodes''),
     (''Active Leader'', case leader ns of Some l \<Rightarrow> ''Node '' @ show_int (node_id l) | None \<Rightarrow> ''Unavailable'',
      case leader ns of Some l \<Rightarrow> host l @ '':'' @ show_int (port l) | None \<Rightarrow> ''No active leader'')]"

text \<open>The width of the quorum bar, in percent, and the label next to it.\<close>

definition quorum_bar :: "NodeMeta list \<Rightarrow> number" where
  "quorum_bar ns = num_nat (length (healthyNodes ns)) / Math_max (lit 1) (num_nat (length ns)) * lit 100"

definition commit_label :: "NodeMeta list \<Rightarrow> string" where
  "commit_label ns = (if quorumReached ns then ''Can Commit'' else ''Blocked'')"

text \<open>The stage shown next to entry \<open>i\<close> of the lifecycle: \<open>traceSteps[i]?.status ?? "idle"\<close>.\<close>

definition stage_shown :: "trace \<Rightarrow> nat \<Rightarrow> TraceStepStatus" where
  "stage_shown tr i = nullish (map_option st_status (js_nth (traceSteps tr) i)) StIdle"

text \<open>The focused module: by click or by the timer, which takes the number of modules.\<close>

definition focus_tick :: "nat \<Rightarrow> nat" where
  "focus_tick active = nextModule (length (pageModules (\<lambda>_. []) [] [] None)) active"

inductive focus_reach :: "nat \<Rightarrow> bool" where
  focus_start: "focus_reach 0"
| focus_timer: "focus_reach a \<Longrightarrow> focus_reach (focus_tick a)"
| focus_click: "i < length (pageModules loc ns hist tr) \<Longrightarrow> focus_reach i"

section \<open>Properties\<close>

lemma length_pageModules [simp]: "length (pageModules loc ns hist tr) = 4"
  by (simp add: pageModules_def)

lemma focus_tick_eq: "focus_tick a = Suc a mod 4"
  by (simp add: focus_tick_def nextModule_def)

lemma focus_reach_less: "focus_reach a \<Longrightarrow> a < 4"
  by (induction rule: focus_reach.induct) (simp_all add: focus_tick_eq)

text \<open>
  The focus always lies on a module, so that reading its title never fails, and
  the timer visits the four modules in turn.
\<close>

theorem focus_is_a_module:
  assumes "focus_reach a"
  shows "js_nth (pageModules loc ns hist tr) a \<noteq> None \<and> (focus_tick ^^ 4) a = a \<and>
    (\<forall>k. 0 < k \<and> k < 4 \<longrightarrow> (focus_tick ^^ k) a \<noteq> a)"
proof -
  have a: "a < 4" by (rule focus_reach_less [OF assms])
  have pow: "(focus_tick ^^ k) a = (a + k) mod 4" for k
    using a by (induction k) (simp_all add: focus_tick_eq mod_Suc_eq)
  have "(a + k) mod 4 \<noteq> a" if "0 < k" "k < 4" for k
    using a that by presburger
  then show ?thesis using a by (simp add: pow js_nth_def)
qed

theorem focus_is_a_module_witness: "(focus_tick ^^ 4) 0 = 0"
  using focus_is_a_module [OF focus_start] by blast

text \<open>
  The quorum bar stays between 0 and 100 percent for every node list of a size an
  array can have, also an empty one.
\<close>

theorem quorum_bar_bounded:
  assumes "length ns < 2 ^ 32"
  shows "Fin 0 \<le> quorum_bar ns \<and> quorum_bar ns \<le> Fin 100"
proof -
  let ?h = "length (healthyNodes ns)" and ?n = "length ns"
  have h: "?h \<le> ?n" by (simp add: healthyNodes_def)
  have num: "num_nat ?n = Fin (of_nat ?n)" "num_nat ?h = Fin (of_nat ?h)"
    using assms h by (auto intro!: num_nat_small)
  obtain d where d: "Math_max (lit 1) (num_nat ?n) = Fin d" "1 \<le> d" "of_nat ?n \<le> d"
    by (cases "1 \<le> (of_nat ?n :: rat)") (simp_all add: num Math_max_eq)
  have q: "0 \<le> of_nat ?h / d" "of_nat ?h / d \<le> 1"
    using d h by (simp_all add: divide_le_eq)
  obtain x where x: "num_of (of_nat ?h / d) = Fin x" "0 \<le> x" "x \<le> 1"
    using num_of_nonneg [OF q(1)] num_of_mono [OF q(2)] num_of_int [of 1]
    by (cases "num_of (of_nat ?h / d)") auto
  have "quorum_bar ns = num_of (x * 100)"
    using d x by (simp add: quorum_bar_def num lit_def fl_of_int [of 100, simplified])
  moreover have "Fin 0 \<le> num_of (x * 100)" using x by (intro num_of_nonneg) simp
  moreover have "num_of (x * 100) \<le> num_of 100" using x by (intro num_of_mono) simp
  ultimately show ?thesis by simp
qed

theorem quorum_bar_bounded_witness: "quorum_bar [] \<le> Fin 100"
  using quorum_bar_bounded [of "[]"] by simp

text \<open>
  The list next to the trace tells the truth about a finished trace: after a
  run the five entries show, in order, exactly the statuses the run ended with, and the module
  map reports success if and only if every entry shows success.
\<close>

theorem stages_shown_after_run:
  assumes "trim (traceKey tr) \<noteq> []" "\<not> traceRunning tr"
  shows "let tr' = fst (runTrace env ns el t fr tr) in
    map (stage_shown tr') [0..<length (lifecycle ns)] = expected_statuses ns fr \<and>
    (startsWith (trace_signal (traceResult tr')) ''Trace success'' \<longleftrightarrow>
      (\<forall>i < length (lifecycle ns). stage_shown tr' i = StSuccess))"
proof -
  let ?tr = "fst (runTrace env ns el t fr tr)"
  note run = runTrace_run [OF assms, of env ns el t fr]
  obtain r where r: "traceResult ?tr = Some r" "tr_ok r = trace_passes ns fr" using run(3) by blast
  have len: "length (expected_statuses ns fr) = 5" "length (lifecycle ns) = 5"
    by (auto simp: expected_statuses_def lifecycle_def split: sum.split)
  have ix: "stage_shown ?tr i = expected_statuses ns fr ! i" if "i < 5" for i
    using that run(2) len(1) by (auto simp: stage_shown_def statuses_def js_nth_def dest: map_eq_imp_length_eq
        simp flip: run(2))
  have "map (stage_shown ?tr) [0..<5] = expected_statuses ns fr"
    using ix len(1) by (intro nth_equalityI) simp_all
  moreover have "startsWith (trace_signal (traceResult ?tr)) ''Trace success'' \<longleftrightarrow> tr_ok r"
    by (simp add: r(1) trace_signal_def startsWith_def)
  moreover have "trace_passes ns fr \<longleftrightarrow> (\<forall>i < 5. expected_statuses ns fr ! i = StSuccess)"
    by (auto simp: trace_passes_def expected_statuses_def numeral_eq_Suc All_less_Suc split: sum.split)
  ultimately show ?thesis using r(2) ix by (simp add: len Let_def)
qed

theorem stages_shown_after_run_witness:
  "stage_shown (fst (runTrace \<lparr>VITE_API_BASE_URL = None, VITE_WS_BASE_URL = None\<rparr> [] (\<lambda>_. 0) 0 fr_ack initialTrace)) 2
     = StError"
proof -
  have k: "trim (traceKey initialTrace) \<noteq> []" "\<not> traceRunning initialTrace" by code_simp+
  have "length (lifecycle []) = 5" "expected_statuses [] fr_ack = [StSuccess, StSuccess, StError, StIdle, StIdle]"
    by (simp_all add: lifecycle_def expected_statuses_def leader_def)
  with stages_shown_after_run [OF k, of "\<lparr>VITE_API_BASE_URL = None, VITE_WS_BASE_URL = None\<rparr>" "[]" "\<lambda>_. 0" 0 fr_ack]
  show ?thesis by (simp add: Let_def upt_conv_Cons numeral_2_eq_2)
qed

end
