(* ===== verification/Render_Architecture.thy ===== *)
theory Render_Architecture
  imports Markup ArchitectureView
begin

text \<open>
  The markup of \<open>ArchitectureView\<close> in \<^verbatim>\<open>App.tsx\<close>, section by section, and the handlers of its
  controls. Reading the focused module beyond the list would throw and leave no page: the view
  is an option.
\<close>

section \<open>Events\<close>

datatype arch_event =
    ArSetActive nat | ArReset | ArRun | ArSetOp trace_op | ArSetKey string | ArSetValue string

section \<open>Sections\<close>

definition arch_header :: "(number \<Rightarrow> string) \<Rightarrow> NodeMeta list \<Rightarrow> MetricsPoint list \<Rightarrow> 'e html" where
  "arch_header loc ns hist =
     tag ''div'' []
       [tag ''h2'' [] [Text ''VaultKV Architecture''],
        para (''Run a live request trace below to verify each architecture stage in order: ingress, TLV translation, '' @
          ''leader WAL, quorum replication, and final ACK.''),
        tag ''div'' [] (map (\<lambda>(label, val, sub). tag ''div'' [] [para label, para val, para sub])
          (header_figures loc ns hist))]"

definition arch_pillars :: "'e html" where
  "arch_pillars = tag ''div'' []
     [Arr (map (\<lambda>(label, val, desc). keyed label ''div'' [] [para label, para val, para desc]) pillars)]"

definition flow_steps :: "(string \<times> string \<times> string \<times> string) list" where
  "flow_steps =
    [(''Browser UI'', ''User action starts request'', ''Globe'', ''text-sky-300''),
     (''FastAPI Gateway'', ''Validates and maps to TLV'', ''FileText'', ''text-amber-300''),
     (''Leader WAL'', ''Durable append before commit'', ''Lock'', ''text-violet-300''),
     (''Quorum Replication'', ''Majority follower ACK'', ''Activity'', ''text-emerald-300''),
     (''Client ACK'', ''Linearizable success reply'', ''CheckCircle2'', ''text-blue-300'')]"

definition arch_flow :: "'e html" where
  "arch_flow = tag ''div'' []
     [tag ''div'' []
       [tag ''h3'' [] [Text ''System Visual Flow''],
        para ''How data moves from UI to consensus commit and back.''],
      tag ''div'' []
       [Arr (map (\<lambda>(idx, name, desc, ic, color). keyed name ''div'' []
            [tag ''div'' [] [tag ic [Cls color] [], para name],
             para desc,
             if idx < length flow_steps - 1
             then tag ''div'' [] [tag ''motion.div'' [] [icon ''ChevronRight'']] else Null])
          (enumerate 0 flow_steps))]]"

definition module_icons :: "string list" where
  "module_icons = [''LayoutDashboard'', ''Search'', ''Activity'', ''BookOpen'']"

definition arch_module :: "nat \<Rightarrow> nat \<Rightarrow> page_module \<times> string \<Rightarrow> arch_event html" where
  "arch_module active index = (\<lambda>(m, ic).
     keyed (pm_id m) ''button'' [OnClick (ArSetActive index),
         Cls (if active = index then ''border-blue-400/40 bg-blue-500/10'' else ''border-white/10 bg-white/[0.02] hover:bg-white/[0.05]'')]
       [tag ''div'' []
         [tag ic [Cls (if active = index then ''text-blue-300'' else ''text-zinc-500'')] [], para (pm_title m)],
        para (pm_goal m),
        if active = index then tag ''motion.div'' [] [Text ''Active Focus''] else Null])"

definition arch_modules :: "page_module list \<Rightarrow> nat \<Rightarrow> page_module \<Rightarrow> arch_event html" where
  "arch_modules ms active focused =
     tag ''div'' []
       [tag ''div'' []
         [tag ''div'' []
           [tag ''h3'' [] [Text ''Control Plane Map''],
            para ''What each page does, what it consumes, and what it produces.''],
          tag ''span'' [] [Text ''Auto Focus'']],
        tag ''div'' [] [Arr (map (\<lambda>(index, m). arch_module active index m) (enumerate 0 (zip ms module_icons)))],
        tag ''div'' []
         [para ''Focused Module Detail'',
          tag ''h4'' [] [Text (pm_title focused)],
          tag ''div'' []
           [tag ''p'' [] [tag ''span'' [] [Text ''Input:''], Text ('' '' @ pm_input focused)],
            tag ''p'' [] [tag ''span'' [] [Text ''Output:''], Text ('' '' @ pm_output focused)],
            tag ''p'' [] [tag ''span'' [] [Text ''Live Signal:''], Text ('' '' @ pm_signal focused)]]]]"

definition replica_line :: "string \<Rightarrow> NodeMeta \<Rightarrow> string \<Rightarrow> 'e html" where
  "replica_line element n down_class =
     keyed (show_int (node_id n)) element []
       [tag ''div'' []
         [tag ''div'' [Cls (if healthy n then ''bg-emerald-400'' else down_class)] [],
          tag ''span'' [] [Text (''Node '' @ show_int (node_id n))]],
        tag ''span'' [] [Text (replica_role n)]]"

definition bar_class :: "NodeMeta list \<Rightarrow> string" where
  "bar_class ns = (if quorumReached ns then ''bg-emerald-400'' else ''bg-rose-400'')"

definition arch_consensus :: "NodeMeta list \<Rightarrow> 'e html" where
  "arch_consensus ns =
     tag ''div'' []
       [tag ''h3'' [] [Text ''Consensus: Why It Matters''],
        para ''Consensus prevents split-brain writes. Client ACK happens only after majority replication.'',
        tag ''div'' []
         [tag ''div'' []
           [tag ''div'' []
             [tag ''span'' [] [Text ''Commit Rule''],
              tag ''span'' [Cls (if quorumReached ns then ''bg-emerald-400/15 text-emerald-300'' else ''bg-rose-400/15 text-rose-300'')]
                [Text (commit_label ns)]],
            para (''Need '' @ show_nat (quorum ns) @ '' ACKs, currently '' @ counts_text ns @ '' healthy.''),
            tag ''div'' [] [tag ''motion.div'' [Attr ''width'' (num_to_string (quorum_bar ns) @ ''%''), Cls (bar_class ns)] []]],
          tag ''div'' [] [Arr (map (\<lambda>n. replica_line ''motion.div'' n ''bg-rose-400'') ns)],
          tag ''div'' []
           [para ''Consensus Outcome'',
            para (''If leader fails, followers elect a new leader. If quorum is lost, writes are safely paused until quorum is '' @
              ''restored. This protects data correctness under node failures.'')]]]"

fun status_name :: "TraceStepStatus \<Rightarrow> string" where
  "status_name StIdle = ''idle''"
| "status_name StRunning = ''running''"
| "status_name StSuccess = ''success''"
| "status_name StError = ''error''"

fun status_class :: "TraceStepStatus \<Rightarrow> string" where
  "status_class StIdle = ''bg-white/5 text-zinc-500''"
| "status_class StRunning = ''bg-amber-400/15 text-amber-300''"
| "status_class StSuccess = ''bg-emerald-400/15 text-emerald-300''"
| "status_class StError = ''bg-rose-400/15 text-rose-300''"

definition trace_ops :: "trace_op list" where
  "trace_ops = [TGet, TSet, TDel]"

definition trace_controls :: "ws_status \<Rightarrow> trace \<Rightarrow> arch_event html list" where
  "trace_controls st tr =
    [tag ''div'' []
      [tag ''div'' []
        [tag ''h3'' [] [Text ''Live Request Trace Runner''],
         para ''Execute the pipeline and watch each stage status in real time.''],
       tag ''div'' []
        [tag ''span'' [] [Text (''Gateway '' @ ws_name st)],
         tag ''button'' [OnClick ArReset, Disabled (traceRunning tr)] [Text ''Reset''],
         tag ''button'' [OnClick ArRun, Disabled (\<not> run_enabled tr)]
          [Text (if traceRunning tr then ''Running...'' else ''Run Trace'')]]],
     tag ''div'' []
      [Arr (map (\<lambda>op. keyed (op_name op) ''button'' [OnClick (ArSetOp op),
           Cls (if traceOp tr = op then ''border-white bg-white text-black''
                else ''border-white/10 bg-white/5 text-zinc-300 hover:bg-white/10'')] [Text (op_name op)]) trace_ops),
       tag ''input'' [Attr ''value'' (traceKey tr), OnChange ArSetKey, Attr ''placeholder'' ''key''] [],
       if traceOp tr = TSet
       then tag ''input'' [Attr ''value'' (traceValue tr), OnChange ArSetValue, Attr ''placeholder'' ''value''] []
       else Null]]"

definition lifecycle_icons :: "(string \<times> string) list" where
  "lifecycle_icons = [(''Globe'', ''text-sky-300''), (''FileText'', ''text-amber-300''), (''Lock'', ''text-violet-300''),
     (''Activity'', ''text-emerald-300''), (''CheckCircle2'', ''text-blue-300'')]"

definition trace_stage :: "trace \<Rightarrow> nat \<Rightarrow> (string \<times> string) \<times> string \<times> string \<Rightarrow> 'e html" where
  "trace_stage tr i = (\<lambda>((title, det), ic, accent).
     keyed title ''div'' []
       [tag ''div'' []
         [tag ''div'' [] [tag ic [Cls accent] []],
          tag ''div'' []
           [tag ''div'' []
             [para (show_nat (i + 1) @ ''. '' @ title),
              tag ''span'' (case js_nth (traceSteps tr) i of None \<Rightarrow> [] | Some s \<Rightarrow> [Cls (status_class (st_status s))])
                [Text (status_name (stage_shown tr i))]],
            para det,
            tag ''p'' [] [opt_text (map_option st_runtime (js_nth (traceSteps tr) i))]]]])"

definition arch_trace :: "NodeMeta list \<Rightarrow> ws_status \<Rightarrow> trace \<Rightarrow> arch_event html" where
  "arch_trace ns st tr = tag ''div'' []
     (trace_controls st tr @
      [tag ''div'' [] [Arr (map (\<lambda>(i, x). trace_stage tr i x) (enumerate 0 (zip (lifecycle ns) lifecycle_icons)))]])"

definition trace_result_box :: "trace_result option \<Rightarrow> 'e html" where
  "trace_result_box res =
     tag ''div'' []
       [tag ''h3'' [] [Text ''Trace Result''],
        case res of
          Some r \<Rightarrow> tag ''div'' []
            [tag ''p'' [Cls (if tr_ok r then ''text-emerald-300'' else ''text-rose-300'')] [Text (tr_message r)],
             para (''End-to-end latency: '' @ toFixed 2 (tr_latencyMs r) @ ''ms''),
             if tr_payload r \<noteq> [] then tag ''pre'' [] [Text (tr_payload r)] else Null]
        | None \<Rightarrow> para ''Run trace to see real gateway response and commit result.'']"

definition arch_side :: "NodeMeta list \<Rightarrow> trace_result option \<Rightarrow> 'e html" where
  "arch_side ns res =
     tag ''div'' []
       [tag ''div'' []
         [tag ''h3'' [] [Text ''Quorum Readiness''],
          para (counts_text ns),
          para (''Healthy replicas (need '' @ show_nat (quorum ns) @ '' to ACK writes)''),
          tag ''div'' [] [tag ''motion.div'' [Attr ''width'' (num_to_string
              (num_nat (length (healthyNodes ns)) / Math_max (num_nat (length ns)) (lit 1) * lit 100) @ ''%''),
            Cls (bar_class ns)] []]],
        tag ''div'' []
         [tag ''h3'' [] [Text ''Replica Status''],
          tag ''div'' [] [Arr (map (\<lambda>n. replica_line ''div'' n ''bg-rose-500'') ns)]],
        trace_result_box res]"

definition frame_sample :: string where
  "frame_sample =
     ''Frame: [type=SET][key_len=0x08][val_len=0x12][term=0x2B]'' @ [CHR 0x0A] @
     ''Key  : user:9421'' @ [CHR 0x0A] @
     ''Value: '' @ stringify (JObj [(''tier'', JStr ''pro''), (''region'', JStr ''ap-south-1'')]) @ [CHR 0x0A] @
     ''WAL  : append -> fsync -> replicate -> quorum_ack''"

definition engine_internals :: "(string \<times> string \<times> string) list" where
  "engine_internals =
    [(''Cpu'', ''epoll Event Loop:'', '' multiplexes socket I/O for gateway and replication channels with low overhead.''),
     (''FileText'', ''WAL First:'', '' every mutating command is durably appended before applied state changes.''),
     (''RefreshCw'', ''Raft Replication:'', '' log entries stream to followers; commit index advances only after majority match.''),
     (''Lock'', ''Encrypted Persistence:'', '' WAL and persisted segments are written with at-rest encryption policies enabled.'')]"

definition arch_internals :: "'e html" where
  "arch_internals =
     tag ''div'' []
       [tag ''div'' []
         [tag ''h3'' [] [Text ''TLV + WAL Pipeline Snapshot''],
          para ''Example frame shape used between gateway and engine.'',
          tag ''div'' [] [tag ''pre'' [] [Text frame_sample]]],
        tag ''div'' []
         [tag ''h3'' [] [Text ''Engine Internals''],
          para ''Core components currently active in the runtime path.'',
          tag ''div'' [] (map (\<lambda>(ic, name, desc). tag ''div'' []
            [icon ic, tag ''p'' [] [tag ''span'' [] [Text name], Text desc]]) engine_internals)]]"

section \<open>The view\<close>

definition ArchitectureView ::
  "(number \<Rightarrow> string) \<Rightarrow> NodeMeta list \<Rightarrow> MetricsPoint list \<Rightarrow> ws_status \<Rightarrow> trace \<Rightarrow> nat \<Rightarrow> arch_event html option"
where
  "ArchitectureView loc ns hist st tr active =
     (let ms = pageModules loc ns hist (traceResult tr) in
      map_option (\<lambda>focused.
        tag ''div'' []
          [arch_header loc ns hist,
           arch_pillars,
           arch_flow,
           tag ''div'' [] [arch_modules ms active focused, arch_consensus ns],
           tag ''div'' [] [arch_trace ns st tr, arch_side ns (traceResult tr)],
           arch_internals])
        (js_nth ms active))"

section \<open>What the view offers\<close>

lemma inert_sections:
  "inert (arch_header loc ns hist)" "inert arch_pillars" "inert arch_flow" "inert (arch_consensus ns)"
  "inert (arch_side ns res)" "inert arch_internals" "inert (trace_stage tr i x)"
  by (auto simp: inert_def arch_header_def header_figures_def arch_pillars_def pillars_def arch_flow_def flow_steps_def
      arch_consensus_def replica_line_def arch_side_def trace_result_box_def arch_internals_def engine_internals_def
      trace_stage_def split: option.splits prod.splits)

lemma chartless_sections:
  "chartless (arch_header loc ns hist)" "chartless arch_pillars" "chartless arch_flow" "chartless (arch_consensus ns)"
  "chartless (arch_side ns res)" "chartless arch_internals" "chartless (trace_stage tr i x)"
  by (auto simp: arch_header_def header_figures_def arch_pillars_def pillars_def arch_flow_def flow_steps_def
      arch_consensus_def replica_line_def arch_side_def trace_result_box_def arch_internals_def engine_internals_def
      trace_stage_def split: option.splits prod.splits)


lemma arch_module_facts:
  "set (clicks [] (arch_module active i m)) = {[ArSetActive i]}"
  "\<forall>a \<in> set (attrs (arch_module active i m)). only_click a" "chartless (arch_module active i m)"
  "well_keyed (arch_module active i m)" "key_of (arch_module active i m) = Some (pm_id (fst m))"
  by (simp_all add: arch_module_def case_prod_beta bubble_def)

lemma set_enumerate0: "set (enumerate 0 xs) = (\<lambda>i. (i, xs ! i)) ` {..<length xs}"
  by (auto simp: in_set_enumerate_eq)

lemma arch_modules_facts:
  assumes "length ms = 4"
  shows "set (clicks [] (arch_modules ms active f)) = insert [] ((\<lambda>i. [ArSetActive i]) ` {..<4})"
    and "\<forall>a \<in> set (attrs (arch_modules ms active f)). only_click a"
    and "chartless (arch_modules ms active f)"
proof -
  have l: "length (zip ms module_icons) = 4" using assms by (simp add: module_icons_def)
  show "set (clicks [] (arch_modules ms active f)) = insert [] ((\<lambda>i. [ArSetActive i]) ` {..<4})"
    by (auto simp: arch_modules_def arch_module_facts set_enumerate0 l simp del: length_zip)
  show "\<forall>a \<in> set (attrs (arch_modules ms active f)). only_click a" "chartless (arch_modules ms active f)"
    using arch_module_facts by (auto simp: arch_modules_def)
qed

lemma trace_ops_all [simp]: "set trace_ops = UNIV" "distinct trace_ops"
proof -
  show "set trace_ops = UNIV" using trace_op.exhaust by (auto simp: trace_ops_def)
qed (simp add: trace_ops_def)

lemma clicks_arch_trace:
  "set (clicks [] (arch_trace ns st tr)) =
     insert [] (range (\<lambda>op. [ArSetOp op]) \<union> (if traceRunning tr then {} else {[ArReset]}) \<union>
       (if run_enabled tr then {[ArRun]} else {}))"
proof -
  note s = inertD(1) [OF inert_sections(7)]
  show ?thesis by (auto simp: arch_trace_def trace_controls_def dest!: s)
qed

lemma attrs_arch_trace:
  "OnChange f \<in> set (attrs (arch_trace ns st tr)) \<longleftrightarrow> f = ArSetKey \<or> (traceOp tr = TSet \<and> f = ArSetValue)"
  "OnKeyDown g \<notin> set (attrs (arch_trace ns st tr))"
  "OnMouseEnter e \<notin> set (attrs (arch_trace ns st tr))" "OnPick f \<notin> set (attrs (arch_trace ns st tr))"
proof -
  note s = inertD(2) [OF inert_sections(7)]
  show "OnChange f \<in> set (attrs (arch_trace ns st tr)) \<longleftrightarrow> f = ArSetKey \<or> (traceOp tr = TSet \<and> f = ArSetValue)"
    "OnKeyDown g \<notin> set (attrs (arch_trace ns st tr))" "OnMouseEnter e \<notin> set (attrs (arch_trace ns st tr))"
    "OnPick f \<notin> set (attrs (arch_trace ns st tr))"
    by (auto simp: arch_trace_def trace_controls_def dest!: s)
qed

lemma chartless_arch_trace: "chartless (arch_trace ns st tr)"
  using chartless_sections(7) by (auto simp: arch_trace_def trace_controls_def)

text \<open>The view, when the focus is on a module.\<close>

lemma ArchitectureView_Some:
  "(\<exists>h. ArchitectureView loc ns hist st tr active = Some h) \<longleftrightarrow> active < 4"
  by (simp add: ArchitectureView_def Let_def js_nth_def)

lemma ArchitectureView_facts:
  assumes "ArchitectureView loc ns hist st tr active = Some h"
  shows "set (clicks [] h) = insert [] ((\<lambda>i. [ArSetActive i]) ` {..<4}) \<union> set (clicks [] (arch_trace ns st tr))"
    and "OnChange f \<in> set (attrs h) \<longleftrightarrow> OnChange f \<in> set (attrs (arch_trace ns st tr))"
    and "OnKeyDown g \<notin> set (attrs h)" and "OnMouseEnter e \<notin> set (attrs h)" and "chartless h"
    and "picks h = []"
proof -
  let ?ms = "pageModules loc ns hist (traceResult tr)"
  obtain m where h: "h = tag ''div'' [] [arch_header loc ns hist, arch_pillars, arch_flow,
      tag ''div'' [] [arch_modules ?ms active m, arch_consensus ns],
      tag ''div'' [] [arch_trace ns st tr, arch_side ns (traceResult tr)], arch_internals]"
    using assms by (auto simp: ArchitectureView_def Let_def)
  note mods = arch_modules_facts [of ?ms active m, simplified]
  note inert1 = inert_sections(1-6) [THEN inertD(1)] and inert2 = inert_sections(1-6) [THEN inertD(2)]
  show "set (clicks [] h) = insert [] ((\<lambda>i. [ArSetActive i]) ` {..<4}) \<union> set (clicks [] (arch_trace ns st tr))"
    by (auto simp: h mods(1) dest!: inert1)
  show "OnChange f \<in> set (attrs h) \<longleftrightarrow> OnChange f \<in> set (attrs (arch_trace ns st tr))"
    "OnKeyDown g \<notin> set (attrs h)" "OnMouseEnter e \<notin> set (attrs h)"
    using mods(2) by (auto simp: h attrs_arch_trace dest: inert2)
  have "OnPick x \<notin> set (attrs h)" for x
    using mods(2) by (auto simp: h attrs_arch_trace dest: inert2)
  then show "picks h = []" by (simp add: picks_none)
  show "chartless h" by (simp add: h chartless_sections chartless_arch_trace mods(3))
qed

lemma offered_ArchitectureView:
  assumes "ArchitectureView loc ns hist st tr active = Some h"
  shows "e \<in> offered h \<longleftrightarrow> (case e of ArSetActive i \<Rightarrow> i < 4 | ArReset \<Rightarrow> \<not> traceRunning tr | ArRun \<Rightarrow> run_enabled tr
    | ArSetValue v \<Rightarrow> traceOp tr = TSet | _ \<Rightarrow> True)"
  by (cases e) (auto simp: offered_iff ArchitectureView_facts [OF assms] clicks_arch_trace attrs_arch_trace bex_Un)

lemma single_ArchitectureView: "ArchitectureView loc ns hist st tr active = Some h \<Longrightarrow> single h"
  by (auto simp: single_def ArchitectureView_facts clicks_arch_trace)

lemma keyed_replicas:
  "well_keyed (Arr (map (\<lambda>n. replica_line t n c) ns)) \<longleftrightarrow> distinct (map node_id ns)"
  by (auto simp: replica_line_def comp_def)

lemma well_keyed_sections:
  "well_keyed (arch_header loc ns hist)" "well_keyed arch_pillars" "well_keyed arch_flow" "well_keyed arch_internals"
  "well_keyed (arch_consensus ns) \<longleftrightarrow> distinct (map node_id ns)"
  "well_keyed (arch_side ns res) \<longleftrightarrow> distinct (map node_id ns)"
proof -
  show "well_keyed (arch_consensus ns) \<longleftrightarrow> distinct (map node_id ns)"
    unfolding arch_consensus_def by (simp del: well_keyed.simps(1) add: keyed_replicas)
  show "well_keyed (arch_side ns res) \<longleftrightarrow> distinct (map node_id ns)"
    unfolding arch_side_def
    by (simp del: well_keyed.simps(1) add: keyed_replicas trace_result_box_def split: option.split)
qed (auto simp: arch_header_def header_figures_def arch_pillars_def pillars_def arch_flow_def flow_steps_def
    arch_internals_def engine_internals_def)

lemma well_keyed_arch_modules: "well_keyed (arch_modules (pageModules loc ns hist tr) active m)"
proof -
  have "map (key_of \<circ> (\<lambda>(index, m). arch_module active index m)) (enumerate 0 (zip (pageModules loc ns hist tr) module_icons)) =
      [Some ''overview'', Some ''explorer'', Some ''consensus'', Some ''architecture'']"
    by (simp add: pageModules_def module_icons_def arch_module_facts)
  then show ?thesis by (auto simp: arch_modules_def arch_module_facts simp flip: set_map simp del: set_map)
qed

lemma trace_stage_keys: "key_of (trace_stage tr i x) = Some (fst (fst x))" "well_keyed (trace_stage tr i x)"
  by (simp_all add: trace_stage_def case_prod_beta split: option.split)

lemma well_keyed_arch_trace: "well_keyed (arch_trace ns st tr)"
proof -
  have "map (key_of \<circ> (\<lambda>(i, x). trace_stage tr i x :: arch_event html)) (enumerate 0 (zip (lifecycle ns) lifecycle_icons)) =
      [Some ''Client Request'', Some ''TLV Translation'', Some ''Leader WAL Commit'', Some ''Quorum Replication'',
       Some ''Client ACK'']"
    by (simp add: lifecycle_def lifecycle_icons_def trace_stage_keys)
  then show ?thesis
    by (auto simp: arch_trace_def trace_controls_def trace_stage_keys trace_ops_def simp flip: set_map simp del: set_map)
qed

lemma well_formed_ArchitectureView:
  assumes "ArchitectureView loc ns hist st tr active = Some h"
  shows "well_formed h \<longleftrightarrow> distinct (map node_id ns)"
  using assms ArchitectureView_facts(5) [OF assms]
  by (auto simp: well_formed_chartless ArchitectureView_def Let_def well_keyed_sections well_keyed_arch_modules
      well_keyed_arch_trace)

end
