(* ===== verification/TraceSteps.thy ===== *)
theory TraceSteps
  imports Render_Architecture
begin

text \<open>
  The request trace as it really runs: \<open>runTrace\<close> is a chain of awaits, and between two of them
  the user edits the inputs, the focus moves on and the cluster changes. Here every await is a
  step of its own, interleaved with everything else the view accepts. A run has the inputs and
  the nodes of the render in which its button was pressed. \<open>runTrace\<close> of \<open>TraceRunner\<close> is
  the specification: it says what a run leaves behind when nothing comes between.
\<close>

section \<open>State\<close>

text \<open>\<open>rn_stage\<close> is the stage whose await is pending, \<open>rn_sent\<close> what the run has sent.\<close>

record trace_run =
  rn_input :: trace
  rn_nodes :: "NodeMeta list"
  rn_stage :: nat
  rn_sent :: "request list"

record arch =
  ar_trace :: trace
  ar_focus :: nat
  ar_run :: "trace_run option"

definition arch_init :: arch where
  "arch_init = \<lparr>ar_trace = initialTrace, ar_focus = 0, ar_run = None\<rparr>"

section \<open>Stages\<close>

definition stage_text :: "trace \<Rightarrow> NodeMeta list \<Rightarrow> nat \<Rightarrow> string" where
  "stage_text tr ns k =
     (if k = 0 then op_name (traceOp tr) @ '' '' @ traceKey tr @ '' received at gateway''
      else if k = 1 then ''Converting JSON payload to TLV frame''
      else if k = 2 then wal_text ns
      else if k = 3 then ''Replicating to '' @ counts_text ns @ '' nodes''
      else ''Sending committed ACK response'')"

text \<open>How the function of a stage ends; only the last one has a value, the response body.\<close>

definition stage_outcome :: "NodeMeta list \<Rightarrow> fetch_result \<Rightarrow> nat \<Rightarrow> thrown + json" where
  "stage_outcome ns fr k =
     (if k = 2 then map_sum id (\<lambda>_. JNull) (wal_stage ns)
      else if k = 3 then map_sum id (\<lambda>_. JNull) (quorum_stage ns)
      else if k = 4 then ack_stage fr
      else Inr JNull)"

text \<open>Entering a stage marks it as running; the last one sends the request.\<close>

definition enter_stage :: "vite_env \<Rightarrow> nat \<Rightarrow> trace_run \<Rightarrow> trace \<Rightarrow> trace \<times> trace_run option" where
  "enter_stage env k r tr =
     (updateStep k StRunning (stage_text (rn_input r) (rn_nodes r) k) tr,
      Some (r\<lparr>rn_stage := k, rn_sent := rn_sent r @ (if k = 4 then [trace_request env (rn_input r)] else [])\<rparr>))"

definition finish_trace :: "trace_result \<Rightarrow> trace \<Rightarrow> trace" where
  "finish_trace res tr = tr\<lparr>traceResult := Some res, traceRunning := False\<rparr>"

text \<open>
  The await of stage \<open>k\<close> ends after \<open>el\<close>, in total \<open>t\<close> after the start: the stage is marked,
  and the next one is entered, or the run ends with its result or with the thrown error.
\<close>

definition stage_settles ::
  "vite_env \<Rightarrow> number \<Rightarrow> number \<Rightarrow> fetch_result \<Rightarrow> trace_run \<Rightarrow> trace \<Rightarrow> trace \<times> trace_run option"
where
  "stage_settles env el t fr r tr =
     (let k = rn_stage r; runtime = stage_text (rn_input r) (rn_nodes r) k in
      case stage_outcome (rn_nodes r) fr k of
        Inl e \<Rightarrow>
          (finish_trace \<lparr>tr_ok = False, tr_message = error_text ''Trace execution failed'' e,
             tr_latencyMs = fixed_number 2 t, tr_payload = []\<rparr>
             (updateStep k StError (error_text ''Unknown failure'' e @ ms_text el) tr), None)
      | Inr v \<Rightarrow>
          (let tr' = updateStep k StSuccess (runtime @ ms_text el) tr in
           if k < 4 then enter_stage env (Suc k) r tr'
           else (finish_trace \<lparr>tr_ok = True,
                  tr_message = op_name (traceOp (rn_input r)) @ '' request committed and acknowledged.'',
                  tr_latencyMs = fixed_number 2 t, tr_payload = pretty 0 v\<rparr> tr', None)))"

definition start_run :: "vite_env \<Rightarrow> NodeMeta list \<Rightarrow> arch \<Rightarrow> arch" where
  "start_run env ns c =
     (if trim (traceKey (ar_trace c)) = [] \<or> traceRunning (ar_trace c) then c
      else case enter_stage env 0 \<lparr>rn_input = ar_trace c, rn_nodes = ns, rn_stage = 0, rn_sent = []\<rparr>
          ((ar_trace c)\<lparr>traceRunning := True, traceResult := None, traceSteps := createTraceSteps\<rparr>) of
        (tr, r) \<Rightarrow> c\<lparr>ar_trace := tr, ar_run := r\<rparr>)"

fun arch_handle :: "vite_env \<Rightarrow> NodeMeta list \<Rightarrow> arch_event \<Rightarrow> arch \<Rightarrow> arch" where
  "arch_handle env ns (ArSetActive i) c = c\<lparr>ar_focus := i\<rparr>"
| "arch_handle env ns ArReset c = c\<lparr>ar_trace := resetTrace (ar_trace c)\<rparr>"
| "arch_handle env ns ArRun c = start_run env ns c"
| "arch_handle env ns (ArSetOp op) c = c\<lparr>ar_trace := (ar_trace c)\<lparr>traceOp := op\<rparr>\<rparr>"
| "arch_handle env ns (ArSetKey k) c = c\<lparr>ar_trace := (ar_trace c)\<lparr>traceKey := k\<rparr>\<rparr>"
| "arch_handle env ns (ArSetValue v) c = c\<lparr>ar_trace := (ar_trace c)\<lparr>traceValue := v\<rparr>\<rparr>"

section \<open>Steps\<close>

text \<open>\<open>h\<close> is the page the user acts on, rendered for the cluster as it is at that moment.\<close>

inductive arch_step :: "vite_env \<Rightarrow> (number \<Rightarrow> string) \<Rightarrow> arch \<Rightarrow> arch \<Rightarrow> bool"
  for env :: vite_env and loc :: "number \<Rightarrow> string" where
  user: "ArchitectureView loc ns hist st (ar_trace c) (ar_focus c) = Some h \<Longrightarrow> e \<in> offered h \<Longrightarrow>
    arch_step env loc c (arch_handle env ns e c)"
| rotate: "arch_step env loc c (c\<lparr>ar_focus := focus_tick (ar_focus c)\<rparr>)"
| settles: "ar_run c = Some r \<Longrightarrow> stage_settles env el t fr r (ar_trace c) = (tr, r') \<Longrightarrow>
    arch_step env loc c (c\<lparr>ar_trace := tr, ar_run := r'\<rparr>)"

inductive arch_reach :: "vite_env \<Rightarrow> (number \<Rightarrow> string) \<Rightarrow> arch \<Rightarrow> bool"
  for env :: vite_env and loc :: "number \<Rightarrow> string" where
  arch_mount: "arch_reach env loc arch_init"
| arch_more: "arch_reach env loc c \<Longrightarrow> arch_step env loc c c' \<Longrightarrow> arch_reach env loc c'"

section \<open>The specification of a run in progress\<close>

text \<open>The trace after the stages whose times are \<open>els\<close>, all passed.\<close>

fun passed :: "trace \<Rightarrow> NodeMeta list \<Rightarrow> number list \<Rightarrow> trace" where
  "passed tr ns [] = tr\<lparr>traceRunning := True, traceResult := None, traceSteps := createTraceSteps\<rparr>"
| "passed tr ns (el # els) =
     fst (executeStep (length els) (stage_text tr ns (length els)) (Inr () :: thrown + unit) el (passed tr ns els))"

text \<open>The stages before \<open>k\<close> pass on these nodes.\<close>

definition passes :: "NodeMeta list \<Rightarrow> nat \<Rightarrow> bool" where
  "passes ns k \<longleftrightarrow> (2 < k \<longrightarrow> leader ns \<noteq> None) \<and> (3 < k \<longrightarrow> quorumReached ns)"

definition same_outcome :: "trace \<Rightarrow> trace \<Rightarrow> bool" where
  "same_outcome a b \<longleftrightarrow> traceSteps a = traceSteps b \<and> traceRunning a = traceRunning b \<and> traceResult a = traceResult b"

definition run_ok :: "vite_env \<Rightarrow> trace_run \<Rightarrow> trace \<Rightarrow> bool" where
  "run_ok env r tr \<longleftrightarrow> rn_stage r \<le> 4 \<and> run_enabled (rn_input r) \<and> passes (rn_nodes r) (rn_stage r) \<and>
     rn_sent r = (if rn_stage r = 4 then [trace_request env (rn_input r)] else []) \<and>
     (\<exists>els. length els = rn_stage r \<and>
        same_outcome tr (updateStep (rn_stage r) StRunning (stage_text (rn_input r) (rn_nodes r) (rn_stage r))
          (passed (rn_input r) (rn_nodes r) els)))"

definition run_inv :: "vite_env \<Rightarrow> arch \<Rightarrow> bool" where
  "run_inv env c \<longleftrightarrow> ar_focus c < 4 \<and>
     (case ar_run c of None \<Rightarrow> \<not> traceRunning (ar_trace c) | Some r \<Rightarrow> run_ok env r (ar_trace c))"

section \<open>Lemmas\<close>

lemma updateStep_twice: "updateStep k st t (updateStep k st' t' tr) = updateStep k st t tr"
proof -
  have "traceSteps (updateStep k st t (updateStep k st' t' tr)) = traceSteps (updateStep k st t tr)"
    by (rule nth_equalityI) (auto simp: updateStep_def nth_enumerate_eq)
  then show ?thesis by (simp add: updateStep_def)
qed

lemma executeStep_Inr: "fst (executeStep k rt (Inr u) el tr) = updateStep k StSuccess (rt @ ms_text el) (updateStep k StRunning rt tr)"
  by (simp add: executeStep_def Let_def)

lemma same_outcome_updateStep:
  "same_outcome a b \<Longrightarrow> same_outcome (updateStep k st t a) (updateStep k st t b)"
  by (simp add: same_outcome_def updateStep_def)

lemma same_outcome_finish: "same_outcome a b \<Longrightarrow> same_outcome (finish_trace r a) (finish_trace r b)"
  by (simp add: same_outcome_def finish_trace_def)

lemma same_outcome_inputs [simp]:
  "same_outcome (a\<lparr>traceOp := op\<rparr>) b = same_outcome a b"
  "same_outcome (a\<lparr>traceKey := k\<rparr>) b = same_outcome a b"
  "same_outcome (a\<lparr>traceValue := v\<rparr>) b = same_outcome a b"
  by (simp_all add: same_outcome_def)

lemma passed_inputs [simp]:
  "traceOp (passed tr ns els) = traceOp tr" "traceKey (passed tr ns els) = traceKey tr"
  "traceValue (passed tr ns els) = traceValue tr" "traceRunning (passed tr ns els)" "traceResult (passed tr ns els) = None"
  by (induction els) (simp_all add: executeStep_Inr)

text \<open>A run that ends at stage \<open>k\<close> ends as the specification says.\<close>

lemma runTrace_ends:
  assumes "run_enabled tr" "k \<le> 4" "passes ns k" "length els = k" "k = 4 \<or> (\<exists>e. stage_outcome ns fr k = Inl e)"
  shows "runTrace env ns ((!) (rev els @ [el])) t fr tr =
    (finish_trace (case stage_outcome ns fr k of
         Inl e \<Rightarrow> \<lparr>tr_ok = False, tr_message = error_text ''Trace execution failed'' e,
           tr_latencyMs = fixed_number 2 t, tr_payload = []\<rparr>
       | Inr v \<Rightarrow> \<lparr>tr_ok = True, tr_message = op_name (traceOp tr) @ '' request committed and acknowledged.'',
           tr_latencyMs = fixed_number 2 t, tr_payload = pretty 0 v\<rparr>)
       (fst (executeStep k (stage_text tr ns k) (stage_outcome ns fr k) el (passed tr ns els))),
     if k = 4 then [trace_request env tr] else [])"
proof -
  have k: "k = 2 \<or> k = 3 \<or> k = 4"
    using assms(2,5) by (auto simp: stage_outcome_def split: if_splits)
  have unit: "wal_stage ns = Inr ()" if "leader ns \<noteq> None" using that by (simp add: wal_stage_def)
  have unit': "quorum_stage ns = Inr ()" if "quorumReached ns" using that by (simp add: quorum_stage_def)
  show ?thesis
    using k
  proof (elim disjE)
    assume "k = 2"
    moreover obtain a b where "els = [b, a]" using assms(4) \<open>k = 2\<close> by (auto simp: length_Suc_conv numeral_eq_Suc)
    ultimately show ?thesis using assms
      by (auto simp: runTrace_def run_enabled_def trace_stages_def executeStep_case stage_text_def stage_outcome_def
          finish_trace_def wal_stage_def executeStep_def Let_def passes_def split: if_splits)
  next
    assume "k = 3"
    moreover obtain a b c where "els = [c, b, a]" using assms(4) \<open>k = 3\<close> by (auto simp: length_Suc_conv numeral_eq_Suc)
    ultimately show ?thesis using assms
      by (auto simp: runTrace_def run_enabled_def trace_stages_def executeStep_case stage_text_def stage_outcome_def
          finish_trace_def unit quorum_stage_def numeral_2_eq_2 executeStep_def Let_def passes_def split: if_splits)
  next
    assume "k = 4"
    moreover obtain a b c d where "els = [d, c, b, a]" using assms(4) \<open>k = 4\<close> by (auto simp: length_Suc_conv numeral_eq_Suc)
    ultimately show ?thesis using assms
      by (auto simp: runTrace_def run_enabled_def trace_stages_def executeStep_case stage_text_def stage_outcome_def
          finish_trace_def unit unit' numeral_2_eq_2 numeral_3_eq_3 executeStep_def Let_def passes_def trace_request_start split: sum.splits)
  qed
qed

lemma same_outcome_refl [simp]: "same_outcome a a"
  by (simp add: same_outcome_def)

lemma run_inv_running: "run_inv env c \<Longrightarrow> traceRunning (ar_trace c) \<longleftrightarrow> ar_run c \<noteq> None"
  by (auto simp: run_inv_def run_ok_def same_outcome_def split: option.splits)

lemma run_ok_inputs [simp]:
  "run_ok env r (tr\<lparr>traceOp := op\<rparr>) = run_ok env r tr"
  "run_ok env r (tr\<lparr>traceKey := k\<rparr>) = run_ok env r tr"
  "run_ok env r (tr\<lparr>traceValue := v\<rparr>) = run_ok env r tr"
  by (simp_all add: run_ok_def)

lemma passes_Suc: "passes ns k \<Longrightarrow> k < 4 \<Longrightarrow> stage_outcome ns fr k = Inr v \<Longrightarrow> passes ns (Suc k)"
  by (auto simp: passes_def stage_outcome_def wal_stage_def quorum_stage_def less_Suc_eq split: if_splits)

lemma settles_passed:
  assumes "same_outcome (ar_trace c) (updateStep k StRunning (stage_text tr ns k) (passed tr ns els))" "length els = k"
  shows "same_outcome (updateStep k StSuccess (stage_text tr ns k @ ms_text el) (ar_trace c)) (passed tr ns (el # els))"
  using same_outcome_updateStep [OF assms(1), of k StSuccess "stage_text tr ns k @ ms_text el"] assms(2)
  by (simp add: executeStep_Inr)

lemma settles_inv:
  assumes inv: "run_inv env c" and r: "ar_run c = Some r" and s: "stage_settles env el t fr r (ar_trace c) = (tr', r')"
  shows "run_inv env (c\<lparr>ar_trace := tr', ar_run := r'\<rparr>)"
proof (cases "stage_outcome (rn_nodes r) fr (rn_stage r)")
  case (Inl e)
  then show ?thesis using s inv by (auto simp: stage_settles_def Let_def run_inv_def finish_trace_def)
next
  case (Inr v)
  show ?thesis
  proof (cases "rn_stage r < 4")
    case True
    from inv r have ok: "run_ok env r (ar_trace c)" by (simp add: run_inv_def)
    then obtain els where els: "length els = rn_stage r" "same_outcome (ar_trace c) (updateStep (rn_stage r) StRunning
        (stage_text (rn_input r) (rn_nodes r) (rn_stage r)) (passed (rn_input r) (rn_nodes r) els))"
      by (auto simp: run_ok_def)
    let ?k = "Suc (rn_stage r)"
    have tr': "tr' = updateStep ?k StRunning (stage_text (rn_input r) (rn_nodes r) ?k)
        (updateStep (rn_stage r) StSuccess (stage_text (rn_input r) (rn_nodes r) (rn_stage r) @ ms_text el) (ar_trace c))"
      and r': "r' = Some (r\<lparr>rn_stage := ?k, rn_sent := if ?k = 4 then [trace_request env (rn_input r)] else []\<rparr>)"
      using s Inr True ok by (auto simp: stage_settles_def enter_stage_def Let_def run_ok_def)
    have "same_outcome tr' (updateStep ?k StRunning (stage_text (rn_input r) (rn_nodes r) ?k)
        (passed (rn_input r) (rn_nodes r) (el # els)))"
      unfolding tr' by (rule same_outcome_updateStep [OF settles_passed [OF els(2,1)]])
    then have "run_ok env (r\<lparr>rn_stage := ?k, rn_sent := if ?k = 4 then [trace_request env (rn_input r)] else []\<rparr>) tr'"
      using ok True passes_Suc [OF _ True Inr] els(1)
      by (auto simp: run_ok_def simp del: passed.simps(2) intro!: exI [of _ "el # els"])
    then show ?thesis using inv r' by (simp add: run_inv_def)
  next
    case False
    then show ?thesis using s Inr inv by (auto simp: stage_settles_def Let_def run_inv_def finish_trace_def)
  qed
qed

lemma user_inv:
  assumes inv: "run_inv env c" and h: "ArchitectureView loc ns hist st (ar_trace c) (ar_focus c) = Some h" "e \<in> offered h"
  shows "run_inv env (arch_handle env ns e c)"
proof (cases e)
  case ArRun
  show ?thesis
  proof (cases "run_enabled (ar_trace c)")
    case True
    then show ?thesis using inv ArRun
      by (auto simp: start_run_def enter_stage_def run_inv_def run_ok_def run_enabled_def passes_def intro!: exI [of _ "[]"])
  qed (use inv ArRun in \<open>auto simp: start_run_def run_enabled_def\<close>)
next
  case ArReset
  then have "\<not> traceRunning (ar_trace c)" using h by (simp add: offered_ArchitectureView)
  then show ?thesis using inv ArReset run_inv_running [OF inv] by (auto simp: run_inv_def resetTrace_def)
next
  case (ArSetActive i)
  then have "i < 4" using h by (simp add: offered_ArchitectureView)
  then show ?thesis using inv ArSetActive by (cases "ar_run c") (simp_all add: run_inv_def)
qed (use inv in \<open>simp_all add: run_inv_def split: option.splits\<close>)

lemma arch_step_inv: "arch_step env loc c c' \<Longrightarrow> run_inv env c \<Longrightarrow> run_inv env c'"
proof (induction rule: arch_step.induct)
  case (rotate c)
  then show ?case by (cases "ar_run c") (simp_all add: run_inv_def focus_tick_eq)
qed (use user_inv settles_inv in blast)+

lemma arch_init_inv: "run_inv env arch_init"
  by (simp add: run_inv_def arch_init_def initialTrace_def)

lemma arch_reach_inv: "arch_reach env loc c \<Longrightarrow> run_inv env c"
  by (induction rule: arch_reach.induct) (auto intro: arch_init_inv arch_step_inv)

section \<open>Properties\<close>

text \<open>
  C3 (refinement). However the stages of a trace interleave with edits of its inputs, with the rotating focus and
  with changes of the cluster, the run refines \<open>runTrace\<close> on the inputs and nodes it started
  with: each settled stage enters the next one and keeps what was captured, so that a run ends
  after at most five, and the stages, the result and the requests it then leaves behind are the
  ones of the specification. The view can be rendered all along.
\<close>

theorem interleaved_trace_refines:
  assumes reach: "arch_reach env loc c" and run: "ar_run c = Some r"
    and s: "stage_settles env el t fr r (ar_trace c) = (tr', r')"
  shows "rn_stage r \<le> 4 \<and> ArchitectureView loc ns hist st (ar_trace c) (ar_focus c) \<noteq> None \<and>
    (case r' of
       Some q \<Rightarrow> rn_stage q = Suc (rn_stage r) \<and> rn_stage q \<le> 4 \<and> rn_input q = rn_input r \<and> rn_nodes q = rn_nodes r
     | None \<Rightarrow> \<exists>el'. same_outcome tr' (fst (runTrace env (rn_nodes r) el' t fr (rn_input r))) \<and>
         rn_sent r = snd (runTrace env (rn_nodes r) el' t fr (rn_input r)))"
proof -
  have inv: "run_inv env c" by (rule arch_reach_inv [OF reach])
  then obtain els where els: "length els = rn_stage r" "same_outcome (ar_trace c) (updateStep (rn_stage r) StRunning
        (stage_text (rn_input r) (rn_nodes r) (rn_stage r)) (passed (rn_input r) (rn_nodes r) els))"
    and k: "rn_stage r \<le> 4" "run_enabled (rn_input r)" "passes (rn_nodes r) (rn_stage r)"
      "rn_sent r = (if rn_stage r = 4 then [trace_request env (rn_input r)] else [])"
    using run by (auto simp: run_inv_def run_ok_def)
  have view: "ArchitectureView loc ns hist st (ar_trace c) (ar_focus c) \<noteq> None"
    using inv ArchitectureView_Some [of loc ns hist st "ar_trace c" "ar_focus c"] by (auto simp: run_inv_def)
  show ?thesis
  proof (cases r')
    case (Some q)
    then show ?thesis using s k(1) view by (auto simp: stage_settles_def enter_stage_def Let_def split: sum.splits if_splits)
  next
    case None
    let ?o = "stage_outcome (rn_nodes r) fr (rn_stage r)"
    have last: "rn_stage r = 4 \<or> (\<exists>e. ?o = Inl e)"
      using s None k(1) by (auto simp: stage_settles_def enter_stage_def Let_def split: sum.splits if_splits)
    note spec = runTrace_ends [OF k(2,1,3) els(1) last, of env el t]
    have "same_outcome tr' (fst (runTrace env (rn_nodes r) ((!) (rev els @ [el])) t fr (rn_input r)))"
      unfolding spec using s None last els(2)
      by (auto simp: stage_settles_def enter_stage_def Let_def executeStep_def split: sum.splits if_splits
          intro!: same_outcome_finish same_outcome_updateStep)
    moreover have "rn_sent r = snd (runTrace env (rn_nodes r) ((!) (rev els @ [el])) t fr (rn_input r))"
      unfolding spec k(4) by simp
    ultimately show ?thesis using None k(1) view by auto
  qed
qed

theorem interleaved_trace_refines_witness:
  "\<exists>c r tr' q. arch_reach \<lparr>VITE_API_BASE_URL = None, VITE_WS_BASE_URL = None\<rparr> num_to_string c \<and> ar_run c = Some r \<and>
     stage_settles \<lparr>VITE_API_BASE_URL = None, VITE_WS_BASE_URL = None\<rparr> 0 0 fr_ack r (ar_trace c) = (tr', Some q) \<and>
     rn_stage q = 1"
proof -
  let ?env = "\<lparr>VITE_API_BASE_URL = None, VITE_WS_BASE_URL = None\<rparr>"
  have en: "trim (traceKey initialTrace) \<noteq> []" "\<not> traceRunning initialTrace" by code_simp+
  obtain h where h: "ArchitectureView num_to_string [] [] WsOpen (ar_trace arch_init) (ar_focus arch_init) = Some h"
    using ArchitectureView_Some [of num_to_string "[]" "[]" WsOpen "ar_trace arch_init" "ar_focus arch_init"]
    by (auto simp: arch_init_def)
  have "ArRun \<in> offered h" using en by (simp add: offered_ArchitectureView [OF h] run_enabled_def arch_init_def)
  from arch_more [OF arch_mount user [OF h this]]
  have reach: "arch_reach ?env num_to_string (start_run ?env [] arch_init)" by simp
  obtain r where run: "ar_run (start_run ?env [] arch_init) = Some r" "rn_stage r = 0"
    using en by (auto simp: start_run_def arch_init_def enter_stage_def)
  obtain tr' q where s: "stage_settles ?env 0 0 fr_ack r (ar_trace (start_run ?env [] arch_init)) = (tr', Some q)"
    using run(2) by (simp add: stage_settles_def stage_outcome_def enter_stage_def Let_def)
  from interleaved_trace_refines [OF reach run(1) s, of "[]" "[]" WsOpen] reach run s show ?thesis by auto
qed

end
