(* ===== verification/Render_App.thy ===== *)
theory Render_App
  imports Render_Dashboards Render_Explorers Render_Raft TraceSteps CommandPalette
begin

text \<open>
  The markup of \<open>App\<close> in \<^verbatim>\<open>App.tsx\<close>: the command palette, the notification panel, the sidebar,
  the header, and the view of the selected tab with the floating graph beside it. \<open>formats\<close>
  collects what the platform supplies: number formatting and times of day.
\<close>

section \<open>Events and handlers\<close>

datatype shell_event =
    ShEnter | ShTab TabId | ShSidebar | ShOpenSearch | ShCloseSearch | ShQuery string | ShInputKey string
  | ShSelect TabId string | ShHover nat | ShBell | ShClosePanel | ShClearPanel

text \<open>
  A key pressed in the palette's input reaches the document's listener after it; \<open>modifier\<close> is
  whether Ctrl or Meta was held.
\<close>

fun shell_handle :: "bool \<Rightarrow> shell_event \<Rightarrow> shell \<Rightarrow> shell" where
  "shell_handle modifier ShEnter s = s\<lparr>isLanding := False\<rparr>"
| "shell_handle modifier (ShTab i) s = s\<lparr>tab := i\<rparr>"
| "shell_handle modifier ShSidebar s = s\<lparr>sidebarOpen := \<not> sidebarOpen s\<rparr>"
| "shell_handle modifier ShOpenSearch s = s\<lparr>searchOpen := True\<rparr>"
| "shell_handle modifier ShCloseSearch s = closeSearch s"
| "shell_handle modifier (ShQuery q) s = setSearchQuery q s"
| "shell_handle modifier (ShInputKey key) s = documentKey modifier key (inputKey key s)"
| "shell_handle modifier (ShSelect i l) s = selectSearchItem i l s"
| "shell_handle modifier (ShHover i) s = s\<lparr>searchActiveIndex := i\<rparr>"
| "shell_handle modifier ShBell s = s\<lparr>centre_of := toggleNotifications (centre_of s)\<rparr>"
| "shell_handle modifier ShClosePanel s = setPanel False s"
| "shell_handle modifier ShClearPanel s = s\<lparr>centre_of := clearNotifications (centre_of s)\<rparr>"

section \<open>The command palette\<close>

fun tab_icon :: "TabId \<Rightarrow> string" where
  "tab_icon TabDashboard = ''LayoutDashboard''"
| "tab_icon TabExplorer = ''Search''"
| "tab_icon TabRaft = ''Activity''"
| "tab_icon TabArchitecture = ''BookOpen''"

definition palette_recent :: "recent \<Rightarrow> shell_event html" where
  "palette_recent r =
     keyed (tab_name (fst r) @ ''-'' @ snd r) ''button'' [OnClick (ShSelect (fst r) (snd r))]
       [tag ''div'' [] [icon ''History'', tag ''span'' [] [Text (snd r)]], icon ''ArrowUpRight'']"

definition palette_jump :: "search_item \<Rightarrow> shell_event html" where
  "palette_jump item =
     keyed (''jump-'' @ tab_name (si_id item)) ''button'' [OnClick (ShSelect (si_id item) (si_label item))]
       [tag ''div'' [] [icon (tab_icon (si_id item)), tag ''span'' [] [Text (si_label item)]], para (si_subtitle item)]"

definition palette_result :: "nat \<Rightarrow> nat \<Rightarrow> search_item \<Rightarrow> shell_event html" where
  "palette_result active idx item =
     keyed (''result-'' @ tab_name (si_id item)) ''button''
       [OnClick (ShSelect (si_id item) (si_label item)), OnMouseEnter (ShHover idx),
        Cls (if active = idx then ''border-blue-400/35 bg-blue-500/10'' else ''border-white/10 bg-white/[0.02] hover:bg-white/[0.08]'')]
       [tag ''div'' []
         [tag ''div'' [Cls (if active = idx then ''border-blue-400/30 bg-blue-500/15'' else ''border-white/10 bg-white/5'')]
           [icon (tab_icon (si_id item))],
          tag ''div'' [] [para (si_label item), para (si_subtitle item)]],
        tag ''ArrowUpRight'' [Cls (if active = idx then ''text-blue-300'' else ''text-zinc-600'')] []]"

definition palette_list :: "shell \<Rightarrow> shell_event html" where
  "palette_list s =
     tag ''div'' []
       [if trim (searchQuery s) = []
        then tag ''div'' []
          [tag ''div'' [] [para ''Recent'', tag ''div'' [] [Arr (map palette_recent (recentSearches s))]],
           tag ''div'' [] [para ''Jump To'', tag ''div'' [] [Arr (map palette_jump searchItems)]]]
        else if 0 < length (results s)
        then tag ''div'' []
          [Arr (map (\<lambda>(idx, item). palette_result (searchActiveIndex s) idx item) (enumerate 0 (results s)))]
        else tag ''div'' []
          [tag ''p'' [] [Text ''No results for '', Glyph [0x201C], Text (searchQuery s), Glyph [0x201D]],
           para ''Try terms like `explorer`, `consensus`, or `architecture`.'']]"

definition search_palette :: "shell \<Rightarrow> shell_event html" where
  "search_palette s =
     tag ''motion.div'' [OnClick ShCloseSearch]
       [tag ''motion.div'' [StopClick]
         [tag ''div'' []
           [tag ''div'' [] [icon ''Search''],
            tag ''input'' [Attr ''value'' (searchQuery s), OnChange ShQuery, OnKeyDown (\<lambda>key. Some (ShInputKey key)),
              Attr ''placeholder'' ''Search pages, actions, and console views...'', Attr ''autoFocus'' ''true''] [],
            tag ''span'' [] [Text ''ESC'']],
          palette_list s,
          tag ''div'' []
           [tag ''div'' []
             [tag ''span'' [] [tag ''span'' [] [Glyph [0x2191, 0x2193]], Text ''Navigate''],
              tag ''span'' [] [tag ''span'' [] [icon ''CornerDownLeft''], Text ''Open'']],
            tag ''span'' [] [Text ''Observe Command Palette'']]]]"

section \<open>The notification panel\<close>

fun level_class :: "NotificationLevel \<Rightarrow> string" where
  "level_class NSuccess = ''bg-emerald-400''"
| "level_class NWarn = ''bg-amber-400''"
| "level_class NError = ''bg-rose-400''"
| "level_class NInfo = ''bg-sky-400''"

definition notification_line :: "(number \<Rightarrow> string) \<Rightarrow> NotificationItem \<Rightarrow> 'e html" where
  "notification_line clock item =
     keyed (nt_id item) ''div''
       [Cls (if nt_read item then ''border-white/10 bg-white/[0.02]'' else ''border-blue-500/35 bg-blue-500/[0.08]'')]
       [tag ''div'' []
         [tag ''div'' [] [tag ''div'' [Cls (level_class (msg_level item))] [], para (msg_title item)],
          tag ''span'' [] [Text (clock (nt_ts item))]],
        para (msg_detail item)]"

definition notification_panel :: "(number \<Rightarrow> string) \<Rightarrow> centre \<Rightarrow> shell_event html" where
  "notification_panel clock c =
     tag ''motion.div'' [OnClick ShClosePanel]
       [tag ''motion.div'' [StopClick]
         [tag ''div'' []
           [tag ''div'' [] [para ''Notifications'', para ''Cluster Activity Feed''],
            tag ''div'' []
             [tag ''button'' [OnClick ShClearPanel] [Text ''Clear''],
              tag ''button'' [OnClick ShClosePanel] [icon ''X'']]],
          tag ''div'' []
           [if length (notifications c) = 0
            then tag ''div'' []
              [para ''No notifications yet.'', para ''Events will appear here as the cluster changes.'']
            else Arr (map (notification_line clock) (notifications c))]]]"

section \<open>Sidebar and header\<close>

definition sidebar_html :: "shell \<Rightarrow> shell_event html" where
  "sidebar_html s =
     tag ''motion.aside'' [Attr ''width'' (if sidebarOpen s then ''280'' else ''88'')]
       [tag ''div'' []
         [tag ''div'' []
           [tag ''div'' [] [icon ''Zap''],
            if sidebarOpen s then tag ''div'' [] [para ''OBSERVE'', para ''Console''] else Null]],
        tag ''nav'' []
         [Arr (map (\<lambda>(i, label). keyed (tab_name i) ''button'' [OnClick (ShTab i),
              Cls (if tab s = i then ''bg-white text-black'' else ''text-zinc-500 hover:bg-white/10 hover:text-zinc-100'')]
              [icon (tab_icon i), if sidebarOpen s then tag ''span'' [] [Text label] else Null]) tabs)],
        tag ''div'' []
         [tag ''button'' [OnClick ShSidebar]
           [tag ''ChevronRight'' (if sidebarOpen s then [Cls ''rotate-180''] else []) []]]]"

definition header_html :: "ws_status \<Rightarrow> shell \<Rightarrow> shell_event html" where
  "header_html st s =
     tag ''header'' []
       [tag ''div'' []
         [tag ''div'' [] [tag ''div'' [] [], tag ''span'' [] [Text (''System Status: '' @ ws_name st)]],
          tag ''button'' [OnClick ShOpenSearch] [icon ''Command'', Text ''Quick Search'']],
        tag ''div'' []
         [tag ''button'' [OnClick ShBell,
             Cls (if notificationsOpen (centre_of s) then ''bg-white/10 text-white''
                  else ''text-zinc-500 hover:bg-white/10 hover:text-white'')]
           [icon ''Bell'',
            case badge (centre_of s) of None \<Rightarrow> Null | Some b \<Rightarrow> tag ''span'' [] [Text b]]]]"

section \<open>The page\<close>

record formats =
  fm_loc :: "number \<Rightarrow> string"
  fm_time :: "number \<Rightarrow> string"
  fm_short :: "number \<Rightarrow> string"
  fm_now :: "nat \<Rightarrow> string"

record views =
  v_explorer :: explorer
  v_raft :: raft_events
  v_arch :: arch
  v_mini :: mini_graph

datatype app_event =
    AppShell shell_event | AppExplorer ex_event | AppRaft "action \<times> int" | AppArch arch_event | AppMini mini_event

definition tab_view :: "formats \<Rightarrow> ClusterState \<Rightarrow> TabId \<Rightarrow> views \<Rightarrow> app_event html list option" where
  "tab_view fm cs i v =
     (case i of
        TabDashboard \<Rightarrow> Some [DashboardView (fm_loc fm) (fm_time fm) (nodes cs) (history cs), Null, Null, Null]
      | TabExplorer \<Rightarrow> Some [Null, map_html AppExplorer (ExplorerView (v_explorer v)), Null, Null]
      | TabRaft \<Rightarrow> Some [Null, Null, map_html AppRaft (RaftView (fm_now fm) (nodes cs) (v_raft v)), Null]
      | TabArchitecture \<Rightarrow> map_option (\<lambda>h. [Null, Null, Null, map_html AppArch h])
          (ArchitectureView (fm_loc fm) (nodes cs) (history cs) (wsStatus cs) (ar_trace (v_arch v)) (ar_focus (v_arch v))))"

definition App :: "formats \<Rightarrow> ClusterState \<Rightarrow> shell \<Rightarrow> views \<Rightarrow> app_event html option" where
  "App fm cs s v =
     map_option (\<lambda>view.
       tag ''div'' []
         [tag ''AnimatePresence'' [] [if isLanding s then map_html AppShell (Landing ShEnter) else Null],
          tag ''AnimatePresence'' [] [if searchOpen s then map_html AppShell (search_palette s) else Null],
          tag ''AnimatePresence'' []
            [if notificationsOpen (centre_of s)
             then map_html AppShell (notification_panel (fm_time fm) (centre_of s)) else Null],
          tag ''div'' []
            [map_html AppShell (sidebar_html s),
             tag ''main'' []
              [map_html AppShell (header_html (wsStatus cs) s),
               tag ''div'' [] [tag ''div'' []
                 [tag ''AnimatePresence'' [] [keyed (tab_name (tab s)) ''motion.div'' [] view]]]]],
          tag ''AnimatePresence'' []
            [map_html AppMini (FloatingMiniGraph (fm_loc fm) (fm_short fm) (tab s \<noteq> TabDashboard) (history cs) (wsStatus cs)
               (v_mini v))]])
       (tab_view fm cs (tab s) v)"

section \<open>What the parts offer\<close>

lemma palette_items:
  "set (clicks [] (palette_recent r)) = {[ShSelect (fst r) (snd r)]}"
  "set (clicks [] (palette_jump item)) = {[ShSelect (si_id item) (si_label item)]}"
  "set (clicks [] (palette_result a i item)) = {[ShSelect (si_id item) (si_label item)]}"
  by (simp_all add: palette_recent_def palette_jump_def palette_result_def bubble_def)

abbreviation select_of :: "search_item \<Rightarrow> shell_event" where
  "select_of item \<equiv> ShSelect (si_id item) (si_label item)"

lemma set_snd_enumerate: "(\<Union>x \<in> set (enumerate n xs). {f (snd x)}) = f ` set xs"
  by (induction xs arbitrary: n) simp_all

lemma clicks_palette_list:
  "set (clicks [] (palette_list s)) = insert []
     (if trim (searchQuery s) = []
      then (\<lambda>r. [ShSelect (fst r) (snd r)]) ` set (recentSearches s) \<union> (\<lambda>item. [select_of item]) ` set searchItems
      else (\<lambda>item. [select_of item]) ` set (results s))"
  using set_snd_enumerate [of "\<lambda>item. [select_of item]" 0 "results s"]
  by (auto simp: palette_list_def palette_items case_prod_beta)

lemma clicks_search_palette:
  "set (clicks [] (search_palette s)) = insert [ShCloseSearch] (set (clicks [] (palette_list s)))"
proof -
  have "[] \<in> set (clicks [] (palette_list s))" by (simp add: clicks_palette_list)
  then show ?thesis by (auto simp: search_palette_def bubble_def)
qed

lemma attrs_palette_list:
  "OnMouseEnter e \<in> set (attrs (palette_list s)) \<longleftrightarrow> trim (searchQuery s) \<noteq> [] \<and> (\<exists>i < length (results s). e = ShHover i)"
  "OnChange f \<notin> set (attrs (palette_list s))" "OnPick f \<notin> set (attrs (palette_list s))" "OnKeyDown g \<notin> set (attrs (palette_list s))"
  by (auto simp: palette_list_def palette_recent_def palette_jump_def palette_result_def set_enumerate0)

lemma attrs_search_palette:
  "OnMouseEnter e \<in> set (attrs (search_palette s)) \<longleftrightarrow> trim (searchQuery s) \<noteq> [] \<and> (\<exists>i < length (results s). e = ShHover i)"
  "OnChange f \<in> set (attrs (search_palette s)) \<longleftrightarrow> f = ShQuery"
  "OnKeyDown g \<in> set (attrs (search_palette s)) \<longleftrightarrow> g = (\<lambda>key. Some (ShInputKey key))"
  "picks (search_palette s) = []"
  by (auto simp: search_palette_def attrs_palette_list picks_none)

lemma clicks_notification_panel:
  "set (clicks [] (notification_panel clock c)) = {[], [ShClosePanel], [ShClearPanel]}"
proof -
  have "set (clicks [] (notification_line clock item)) = {[]}" for item
    by (simp add: notification_line_def)
  then show ?thesis by (auto simp: notification_panel_def bubble_def)
qed

lemma clicks_sidebar: "set (clicks [] (sidebar_html s)) = {[], [ShSidebar]} \<union> (\<lambda>t. [ShTab (fst t)]) ` set tabs"
  by (auto simp: sidebar_html_def bubble_def tabs_def split: if_splits)

lemma clicks_header: "set (clicks [] (header_html st s)) = {[], [ShOpenSearch], [ShBell]}"
  by (auto simp: header_html_def bubble_def split: option.splits)

lemma clicks_Landing: "set (clicks [] (Landing e)) = {[], [e]}"
  by (auto simp: Landing_def)

lemma only_click_parts:
  "a \<in> set (attrs (notification_panel clock c)) \<Longrightarrow> only_click a"
  "a \<in> set (attrs (sidebar_html s)) \<Longrightarrow> only_click a"
  "a \<in> set (attrs (header_html st s)) \<Longrightarrow> only_click a"
  "b \<in> set (attrs (Landing e)) \<Longrightarrow> only_click b"
  by (auto simp: notification_panel_def notification_line_def sidebar_html_def header_html_def Landing_def
      split: if_splits option.splits)

lemma offered_parts:
  "e \<in> offered (search_palette s) \<longleftrightarrow>
     (case e of ShCloseSearch \<Rightarrow> True | ShQuery q \<Rightarrow> True | ShInputKey k \<Rightarrow> True
      | ShSelect i l \<Rightarrow> (if trim (searchQuery s) = [] then (i, l) \<in> set (recentSearches s) \<or> (\<exists>item \<in> set searchItems. e = select_of item)
          else \<exists>item \<in> set (results s). e = select_of item)
      | ShHover i \<Rightarrow> trim (searchQuery s) \<noteq> [] \<and> i < length (results s) | _ \<Rightarrow> False)"
  by (cases e)
    (force simp: offered_iff clicks_search_palette clicks_palette_list attrs_search_palette image_iff
      split: if_splits)+

lemma offered_chrome:
  "offered (Landing e) = {e}" "offered (notification_panel clock c) = {ShClosePanel, ShClearPanel}"
  "offered (sidebar_html s) = insert ShSidebar (range ShTab)" "offered (header_html st s) = {ShOpenSearch, ShBell}"
proof -
  have "i \<in> fst ` set tabs" for i by (cases i) (simp_all add: tabs_def)
  then have tabs: "(\<lambda>t. ShTab (fst t)) ` set tabs = range ShTab" by (auto simp: image_iff)
  show "offered (sidebar_html s) = insert ShSidebar (range ShTab)"
    using tabs by (auto simp: offered_only_click only_click_parts clicks_sidebar)
qed (auto simp: offered_only_click only_click_parts clicks_Landing clicks_notification_panel clicks_header)

lemma inert_DashboardView: "inert (DashboardView loc clock ns hist)"
  by (auto simp: inert_def DashboardView_def DashboardView_card_def area_chart_def gradient_def dashboard_cards_def card_icons_def)

lemma single_parts:
  "single (Landing e)" "single (search_palette s)" "single (notification_panel clock c)" "single (sidebar_html s)"
  "single (header_html st s)" "single (FloatingMiniGraph loc clock b hist st g)" "single (ExplorerView ex)"
  "single (RaftView now ns evs)"
  by (auto simp: single_def clicks_Landing clicks_search_palette clicks_palette_list clicks_notification_panel
      clicks_sidebar clicks_header clicks_ExplorerView clicks_views FloatingMiniGraph_def mini_chart_def gradient_def Let_def bubble_def
      split: if_splits)

text \<open>The events of the shell that the page offers.\<close>

definition shell_offers :: "shell \<Rightarrow> shell_event set" where
  "shell_offers s = (if isLanding s then {ShEnter} else {}) \<union> (if searchOpen s then offered (search_palette s) else {}) \<union>
     (if notificationsOpen (centre_of s) then {ShClosePanel, ShClearPanel} else {}) \<union>
     {ShSidebar, ShOpenSearch, ShBell} \<union> range ShTab"

lemma App_offers:
  assumes "App fm cs s v = Some h"
  shows "AppShell e \<in> offered h \<longleftrightarrow> e \<in> shell_offers s" and "single h"
proof -
  obtain view where view: "tab_view fm cs (tab s) v = Some view" using assms by (auto simp: App_def)
  have v: "\<forall>w \<in> set view. single w \<and> AppShell e \<notin> offered w"
    using view
    by (cases "tab s") (auto simp: tab_view_def inert_DashboardView inert_single inert_offered single_parts
        single_ArchitectureView)
  then show "AppShell e \<in> offered h \<longleftrightarrow> e \<in> shell_offers s"
    using assms view by (auto simp: App_def shell_offers_def offered_chrome)
  show "single h" using assms view v by (auto simp: App_def single_parts)
qed

lemma results_blank: "trim (searchQuery s) = [] \<Longrightarrow> results s = []"
  by (simp add: filteredSearchItems_def toLowerCase_def)

lemma tabs_all: "\<exists>l. (i, l) \<in> set tabs"
  by (cases i) (auto simp: tabs_def)

lemma select_step:
  assumes "searchOpen s" "ShSelect i l \<in> offered (search_palette s)"
  shows "shell_step s (selectSearchItem i l s)"
proof (cases "trim (searchQuery s) = []")
  case True
  with assms(2) consider "(i, l) \<in> set (recentSearches s)" | item where "item \<in> set searchItems" "i = si_id item" "l = si_label item"
    by (auto simp: offered_parts)
  then show ?thesis
  proof cases
    case 1
    then show ?thesis using click_recent [OF assms(1) True 1] by simp
  next
    case 2
    then show ?thesis using click_jump [OF assms(1) True 2(1)] by simp
  qed
next
  case False
  with assms(2) obtain item where "item \<in> set (results s)" "i = si_id item" "l = si_label item"
    by (auto simp: offered_parts)
  then show ?thesis using click_result [OF assms(1)] by simp
qed

lemma offers_step:
  assumes "e \<in> shell_offers s"
  shows "shell_step s (shell_handle modifier e s)"
proof (cases e)
  case (ShTab i)
  then show ?thesis using tabs_all [of i] by (auto intro: choose_tab)
next
  case (ShSelect i l)
  then show ?thesis using assms select_step [of s i l] by (auto simp: shell_offers_def split: if_splits)
qed (use assms in \<open>auto simp: shell_offers_def offered_parts shell_step.intros split: if_splits\<close>)

text \<open>The steps of the shell that do not come from a control.\<close>

definition environment_step :: "shell \<Rightarrow> shell \<Rightarrow> bool" where
  "environment_step s s' \<longleftrightarrow>
     (\<exists>stamp. s' = s\<lparr>centre_of := online_effect stamp (centre_of s)\<rparr>) \<or>
     (\<exists>stamp ns. s' = s\<lparr>centre_of := nodes_effect stamp ns (centre_of s)\<rparr>) \<or>
     (\<exists>stamp st. s' = s\<lparr>centre_of := ws_effect stamp st (centre_of s)\<rparr>) \<or>
     (\<exists>modifier key. s' = documentKey modifier key s)"

lemma environment_step_shell: "environment_step s s' \<Longrightarrow> shell_step s s'"
  unfolding environment_step_def by (elim disjE exE; simp add: shell_step.intros)

lemma step_offers:
  assumes step: "shell_step s s'" and other: "\<not> environment_step s s'"
  shows "\<exists>e modifier. e \<in> shell_offers s \<and> s' = shell_handle modifier e s"
  using step
proof cases
  case enter_console
  then show ?thesis by (intro exI [of _ ShEnter]) (simp add: shell_offers_def)
next
  case (choose_tab i l)
  then show ?thesis by (intro exI [of _ "ShTab i"]) (simp add: shell_offers_def)
next
  case sidebar
  then show ?thesis by (intro exI [of _ ShSidebar]) (simp add: shell_offers_def)
next
  case quick_search
  then show ?thesis by (intro exI [of _ ShOpenSearch]) (simp add: shell_offers_def)
next
  case backdrop
  then show ?thesis by (intro exI [of _ ShCloseSearch]) (simp add: shell_offers_def offered_parts)
next
  case bell
  then show ?thesis by (intro exI [of _ ShBell]) (simp add: shell_offers_def)
next
  case panel_close
  then show ?thesis by (intro exI [of _ ShClosePanel]) (simp add: shell_offers_def)
next
  case panel_clear
  then show ?thesis by (intro exI [of _ ShClearPanel]) (simp add: shell_offers_def)
next
  case (input_key modifier key)
  then show ?thesis by (intro exI [of _ "ShInputKey key"] exI [of _ modifier]) (simp add: shell_offers_def offered_parts)
next
  case (query q)
  then show ?thesis by (intro exI [of _ "ShQuery q"]) (simp add: shell_offers_def offered_parts)
next
  case (hover i)
  then show ?thesis using results_blank [of s]
    by (intro exI [of _ "ShHover i"]) (auto simp: shell_offers_def offered_parts)
next
  case (click_result item)
  then show ?thesis using results_blank [of s]
    by (intro exI [of _ "select_of item"]) (auto simp: shell_offers_def offered_parts)
next
  case (click_jump item)
  then show ?thesis by (intro exI [of _ "select_of item"]) (auto simp: shell_offers_def offered_parts)
next
  case (click_recent r)
  then show ?thesis by (intro exI [of _ "ShSelect (fst r) (snd r)"]) (auto simp: shell_offers_def offered_parts)
next
  case (online stamp)
  then show ?thesis using other by (auto simp: environment_step_def)
next
  case (notified stamp ns)
  then show ?thesis using other by (auto simp: environment_step_def)
next
  case (status_change stamp st)
  then show ?thesis using other by (auto simp: environment_step_def)
next
  case (page_key modifier key)
  then show ?thesis using other by (auto simp: environment_step_def)
qed

section \<open>Well-formed parts\<close>

lemma tab_name_no_dash: "CHR ''-'' \<notin> set (tab_name i)"
  by (cases i) simp_all

lemma tab_name_inject [simp]: "tab_name i = tab_name j \<longleftrightarrow> i = j"
  by (cases i; cases j) simp_all

lemma recent_key_inject: "tab_name i @ CHR ''-'' # l = tab_name j @ CHR ''-'' # k \<Longrightarrow> i = j"
proof -
  assume eq: "tab_name i @ CHR ''-'' # l = tab_name j @ CHR ''-'' # k"
  have "takeWhile (\<lambda>c. c \<noteq> CHR ''-'') (tab_name x @ CHR ''-'' # y) = tab_name x" for x y
    using tab_name_no_dash [of x] by (subst takeWhile_append2) auto
  then show "i = j" using eq by (metis tab_name_inject)
qed

lemma recent_keys_distinct:
  assumes "distinct (map fst rs)"
  shows "distinct (map (\<lambda>r. tab_name (fst r) @ CHR ''-'' # snd r) rs)"
proof -
  have "inj_on (\<lambda>r. tab_name (fst r) @ CHR ''-'' # snd r) (set rs)"
    using assms by (auto simp: distinct_map intro!: inj_onI dest!: recent_key_inject dest: inj_onD)
  then show ?thesis using assms by (simp add: distinct_map)
qed

lemma distinct_results: "distinct (map si_id (results s))" "distinct (map si_id searchItems)"
proof -
  show items: "distinct (map si_id searchItems)" by (simp add: searchItems_def tabs_def)
  show "distinct (map si_id (results s))"
    unfolding filteredSearchItems_def Let_def using items by (simp add: distinct_map_filter)
qed

lemma well_keyed_palette:
  assumes "distinct (map fst (recentSearches s))"
  shows "well_keyed (search_palette s)"
proof -
  have r: "distinct (map (\<lambda>x. ''result-'' @ tab_name (si_id (snd x))) (enumerate 0 (results s)))"
    using distinct_results(1) [of s] by (auto simp: distinct_conv_nth nth_enumerate_eq)
  have j: "distinct (map (\<lambda>item. ''jump-'' @ tab_name (si_id item)) searchItems)"
    by (simp add: searchItems_def tabs_def)
  show ?thesis using recent_keys_distinct [OF assms] r j
    by (auto simp: search_palette_def palette_list_def palette_recent_def palette_jump_def palette_result_def comp_def
        case_prod_beta)
qed

lemma chartless_parts:
  "chartless (search_palette s)" "chartless (notification_panel clock c)" "chartless (sidebar_html s)" "chartless (header_html st s)"
  "chartless (Landing e)"
  by (auto simp: search_palette_def palette_list_def palette_recent_def palette_jump_def palette_result_def
      notification_panel_def notification_line_def sidebar_html_def header_html_def Landing_def split: option.splits)

lemma well_keyed_parts:
  "well_keyed (notification_panel clock c) \<longleftrightarrow> distinct (map nt_id (notifications c))"
  "well_keyed (sidebar_html s)" "well_keyed (header_html st s)" "well_keyed (Landing e)"
  by (auto simp: notification_panel_def notification_line_def sidebar_html_def header_html_def Landing_def tabs_def comp_def
      split: option.splits)

lemma well_formed_tab_view:
  assumes "tab_view fm cs i v = Some view" "distinct (map node_id (nodes cs))"
  shows "\<forall>w \<in> set view. well_formed w"
    and "concat (map ids view) = (if i = TabDashboard then [''setGrad'', ''getGrad''] else [])"
proof -
  note arch = well_formed_ArchitectureView ArchitectureView_facts(5) [THEN chartless_no_ids]
  show "\<forall>w \<in> set view. well_formed w"
    using assms by (cases i) (auto simp: tab_view_def well_formed_DashboardView well_formed_ExplorerView
        well_formed_RaftView arch well_formed_chartless)
  have "ids (DashboardView loc clock ns hist) = [''setGrad'', ''getGrad'']" for loc clock ns hist
    by (simp add: DashboardView_def DashboardView_card_def area_chart_def gradient_def dashboard_cards_def card_icons_def)
  then show "concat (map ids view) = (if i = TabDashboard then [''setGrad'', ''getGrad''] else [])"
    using assms(1) by (cases i) (auto simp: tab_view_def chartless_ExplorerView chartless_RaftView chartless_no_ids arch)
qed

lemma well_formed_App:
  assumes "App fm cs s v = Some h" "distinct (map node_id (nodes cs))" "distinct (map fst (recentSearches s))"
    "distinct (map nt_id (notifications (centre_of s)))"
  shows "well_formed h"
proof -
  obtain view where view: "tab_view fm cs (tab s) v = Some view" using assms(1) by (auto simp: App_def)
  let ?mini = "FloatingMiniGraph (fm_loc fm) (fm_short fm) (tab s \<noteq> TabDashboard) (history cs) (wsStatus cs) (v_mini v)"
  have h: "h = tag ''div'' []
      [tag ''AnimatePresence'' [] [if isLanding s then map_html AppShell (Landing ShEnter) else Null],
       tag ''AnimatePresence'' [] [if searchOpen s then map_html AppShell (search_palette s) else Null],
       tag ''AnimatePresence'' [] [if notificationsOpen (centre_of s)
          then map_html AppShell (notification_panel (fm_time fm) (centre_of s)) else Null],
       tag ''div'' [] [map_html AppShell (sidebar_html s),
         tag ''main'' [] [map_html AppShell (header_html (wsStatus cs) s),
           tag ''div'' [] [tag ''div'' [] [tag ''AnimatePresence'' [] [keyed (tab_name (tab s)) ''motion.div'' [] view]]]]],
       tag ''AnimatePresence'' [] [map_html AppMini ?mini]]"
    using assms(1) view by (simp add: App_def)
  have w: "well_keyed x" "charts_ok None x" "set (fills x) \<subseteq> set (ids x)" if "x \<in> set view" for x
    using well_formed_tab_view(1) [OF view assms(2)] that by (auto simp: well_formed_def)
  have m: "well_keyed ?mini" "charts_ok None ?mini" "distinct (ids ?mini)" "set (fills ?mini) \<subseteq> set (ids ?mini)"
    using well_formed_FloatingMiniGraph by (auto simp: well_formed_def)
  have "tab s = TabDashboard \<Longrightarrow> ids ?mini = []" by (simp add: FloatingMiniGraph_def)
  then have "distinct (concat (map ids view) @ ids ?mini)"
    using well_formed_tab_view(2) [OF view assms(2)] m(3) by auto
  moreover have "ids h = concat (map ids view) @ ids ?mini"
    by (auto simp: h chartless_parts chartless_no_ids)
  moreover have "fills h = concat (map fills view) @ fills ?mini"
    by (auto simp: h chartless_parts chartless_no_fills)
  moreover have "well_keyed h" using w m assms(3,4)
    by (auto simp: h well_keyed_parts well_keyed_palette)
  moreover have "charts_ok None h" using w m by (auto simp: h chartless_parts chartless_charts_ok)
  ultimately show ?thesis using w(3) m(4) by (auto simp: well_formed_def)
qed

section \<open>Properties\<close>

text \<open>
  C2 (equivalence). The state machine of the shell is the page: whatever is on the screen, the steps of the shell
  are exactly the handlers of the controls shown at that moment, together with the four things
  that do not come from a control (the mount of the page, changed nodes, a changed connection
  status, a key pressed outside the palette); and no click is delivered to two controls, although the backdrops of
  the palette and of the panel enclose them.
\<close>

theorem shell_machine_is_the_page:
  assumes "App fm cs s v = Some h"
  shows "(shell_step s s' \<longleftrightarrow>
     (\<exists>e modifier. AppShell e \<in> offered h \<and> s' = shell_handle modifier e s) \<or> environment_step s s') \<and> single h"
  unfolding App_offers(1) [OF assms]
  using App_offers(2) [OF assms] step_offers offers_step environment_step_shell by metis

theorem shell_machine_is_the_page_witness:
  "\<exists>h v. App \<lparr>fm_loc = num_to_string, fm_time = num_to_string, fm_short = num_to_string, fm_now = (\<lambda>_. [])\<rparr> initialState
     (shell_init Map.empty default_recents (centre_init WsOpen [])) v = Some h \<and> single h"
proof -
  let ?s = "shell_init Map.empty default_recents (centre_init WsOpen [])"
  let ?fm = "\<lparr>fm_loc = num_to_string, fm_time = num_to_string, fm_short = num_to_string, fm_now = (\<lambda>_. [])\<rparr>"
  let ?v = "\<lparr>v_explorer = explorer_init, v_raft = raft_init, v_arch = arch_init, v_mini = load_mini_graph Map.empty\<rparr>"
  obtain h where h: "App ?fm initialState ?s ?v = Some h" by (simp add: App_def tab_view_def shell_init_def)
  then show ?thesis using shell_machine_is_the_page [OF h, of ?s] by blast
qed

end
