(* ===== verification/Application.thy ===== *)
theory Application
  imports Console_Keys Render_App
begin

text \<open>
  The running application: the page of \<open>App\<close>, everything a user can do on it, and everything
  that happens meanwhile. A gesture on the rendered page runs the handlers of the control it
  hits; the stream, the answers to requests, the stages of a trace and the effects of a render
  come at any time. The components share one store, one notification centre and one local
  storage, as they do in the program.
\<close>

section \<open>State\<close>

text \<open>
  \<open>ap_askers\<close> tells for every action in flight in which visit of the consensus view it was
  started, \<open>ap_visit\<close> is the number of the present one. \<open>ap_left\<close> has the traces that go on
  although their view is gone.
\<close>

record app =
  ap_stream :: hook
  ap_actions :: "pending list"
  ap_askers :: "nat list"
  ap_shell :: shell
  ap_explorer :: ex_sys
  ap_raft :: raft_events
  ap_visit :: nat
  ap_arch :: arch
  ap_left :: "trace_run list"
  ap_mini :: mini_graph

abbreviation ap_store :: "app \<Rightarrow> ClusterState" where
  "ap_store ap \<equiv> hstore (ap_stream ap)"

definition ex_mounted :: ex_sys where
  "ex_mounted = \<lparr>ex_view = explorer_init, ex_calls = []\<rparr>"

definition app_init :: "local_storage \<Rightarrow> recent list \<Rightarrow> app" where
  "app_init ls recents = \<lparr>ap_stream = hook_init, ap_actions = [], ap_askers = [],
     ap_shell = shell_init ls recents (centre_init (wsStatus initialState) (nodes initialState)),
     ap_explorer = ex_mounted, ap_raft = raft_init, ap_visit = 0, ap_arch = arch_init, ap_left = [],
     ap_mini = load_mini_graph ls\<rparr>"

definition app_views :: "app \<Rightarrow> views" where
  "app_views ap = \<lparr>v_explorer = ex_view (ap_explorer ap), v_raft = ap_raft ap, v_arch = ap_arch ap, v_mini = ap_mini ap\<rparr>"

definition app_html :: "formats \<Rightarrow> app \<Rightarrow> app_event html option" where
  "app_html fm ap = App fm (ap_store ap) (ap_shell ap) (app_views ap)"

section \<open>Handlers\<close>

definition start_command :: "vite_env \<Rightarrow> ex_sys \<Rightarrow> ex_sys" where
  "start_command env x = (case execute_begin env (ex_view x) of None \<Rightarrow> x
     | Some req \<Rightarrow> x\<lparr>ex_calls := ex_calls x @ [ex_view x]\<rparr>)"

definition start_action :: "action \<Rightarrow> int \<Rightarrow> app \<Rightarrow> app" where
  "start_action a i ap = ap\<lparr>ap_stream := on_store (begin_action a i) (ap_stream ap),
     ap_actions := ap_actions ap @ [\<lparr>act = a, target = i, previous = ap_store ap\<rparr>],
     ap_askers := ap_askers ap @ [ap_visit ap]\<rparr>"

text \<open>A change of the floating graph runs the effects that write it to the storage.\<close>

definition move_mini :: "mini_event \<Rightarrow> app \<Rightarrow> app" where
  "move_mini e ap = (let g = mini_handle e (ap_mini ap) in
     ap\<lparr>ap_mini := g, ap_shell := (ap_shell ap)\<lparr>storage := save_mini_graph g (storage (ap_shell ap))\<rparr>\<rparr>)"

fun dispatch :: "vite_env \<Rightarrow> bool \<Rightarrow> app_event \<Rightarrow> app \<Rightarrow> app" where
  "dispatch env modifier (AppShell e) ap = ap\<lparr>ap_shell := shell_handle modifier e (ap_shell ap)\<rparr>"
| "dispatch env modifier (AppExplorer e) ap = ap\<lparr>ap_explorer :=
     (if e = ExExecute then start_command env (ap_explorer ap)
      else (ap_explorer ap)\<lparr>ex_view := ex_handle e (ex_view (ap_explorer ap))\<rparr>)\<rparr>"
| "dispatch env modifier (AppRaft c) ap = start_action (fst c) (snd c) ap"
| "dispatch env modifier (AppArch e) ap = ap\<lparr>ap_arch := arch_handle env (nodes (ap_store ap)) e (ap_arch ap)\<rparr>"
| "dispatch env modifier (AppMini e) ap = move_mini e ap"

text \<open>
  The answer to a kill or restart reaches the store, and the event stream of the view that asked
  for it, unless that view has gone since.
\<close>

definition action_answered :: "(string \<Rightarrow> string) \<Rightarrow> nat \<Rightarrow> fetch_result \<Rightarrow> app \<Rightarrow> app" where
  "action_answered tmsg k fr ap =
     (let p = ap_actions ap ! k; (s, evs) = raft_done tmsg p fr (ap_store ap, ap_raft ap) in
      ap\<lparr>ap_stream := on_store (\<lambda>_. s) (ap_stream ap),
        ap_raft := (if ap_askers ap ! k = ap_visit ap then evs else ap_raft ap),
        ap_actions := take k (ap_actions ap) @ drop (Suc k) (ap_actions ap),
        ap_askers := take k (ap_askers ap) @ drop (Suc k) (ap_askers ap)\<rparr>)"

text \<open>
  A view that is not selected is unmounted once its closing animation has ended: its state is
  then the initial one when it is shown again. The answers to its commands have nobody to tell,
  but a trace that is running goes on, its stages and its request included.
\<close>

fun leave :: "TabId \<Rightarrow> app \<Rightarrow> app" where
  "leave TabDashboard ap = ap"
| "leave TabExplorer ap = ap\<lparr>ap_explorer := ex_mounted\<rparr>"
| "leave TabRaft ap = ap\<lparr>ap_raft := raft_init, ap_visit := Suc (ap_visit ap)\<rparr>"
| "leave TabArchitecture ap = ap\<lparr>ap_arch := arch_init,
     ap_left := ap_left ap @ (case ar_run (ap_arch ap) of None \<Rightarrow> [] | Some r \<Rightarrow> [r])\<rparr>"

definition left_settles :: "vite_env \<Rightarrow> nat \<Rightarrow> number \<Rightarrow> number \<Rightarrow> fetch_result \<Rightarrow> app \<Rightarrow> app" where
  "left_settles env k el t fr ap = ap\<lparr>ap_left := take k (ap_left ap) @
     (case snd (stage_settles env el t fr (ap_left ap ! k) initialTrace) of None \<Rightarrow> [] | Some r \<Rightarrow> [r]) @
     drop (Suc k) (ap_left ap)\<rparr>"

text \<open>
  The effects of a mount: the floating graph writes its placement, the stream is set up, and the
  notification centre starts. React's strict mode runs them a second time.
\<close>

type_synonym stamps = "nat \<Rightarrow> string \<times> number"

definition mounted :: "stamps \<Rightarrow> stamps \<Rightarrow> stamps \<Rightarrow> app \<Rightarrow> app" where
  "mounted st0 st1 st2 ap = ap\<lparr>ap_stream := remount (ap_stream ap),
     ap_shell := (ap_shell ap)\<lparr>storage := save_mini_graph (ap_mini ap) (storage (ap_shell ap)),
       centre_of := mount_effects st0 st1 st2 (ap_store ap) (centre_of (ap_shell ap))\<rparr>\<rparr>"

section \<open>Steps\<close>

text \<open>What can happen next; a gesture comes with the events of the controls it hits.\<close>

datatype app_input =
    InMounts stamps stamps stamps
  | InGesture bool "app_event list"
  | InKey bool string
  | InStream hook_event
  | InAnswer nat fetch_result
  | InCommand nat number fetch_result
  | InTrace number number fetch_result
  | InLeft nat number number fetch_result
  | InFocus
  | InRender stamps stamps
  | InLeave TabId

text \<open>The effects of the mount have run before the first gesture or key is handled.\<close>

inductive app_step :: "vite_env \<Rightarrow> formats \<Rightarrow> (string \<Rightarrow> string) \<Rightarrow> app \<Rightarrow> app_input \<Rightarrow> app \<Rightarrow> bool"
  for env :: vite_env and fm :: formats and tmsg :: "string \<Rightarrow> string" where
  mount_app: "app_step env fm tmsg ap (InMounts st0 st1 st2) (mounted st0 st1 st2 ap)"
| user_gesture: "live (ap_stream ap) \<Longrightarrow> app_html fm ap = Some h \<Longrightarrow> gesture h es \<Longrightarrow>
    app_step env fm tmsg ap (InGesture modifier es) (fold (dispatch env modifier) es ap)"
| key_outside: "live (ap_stream ap) \<Longrightarrow>
    app_step env fm tmsg ap (InKey modifier key) (ap\<lparr>ap_shell := documentKey modifier key (ap_shell ap)\<rparr>)"
| stream_event: "e \<noteq> Mount \<Longrightarrow> e \<noteq> Unmount \<Longrightarrow> hook_step (ap_stream ap) e = Some h \<Longrightarrow>
    app_step env fm tmsg ap (InStream e) (ap\<lparr>ap_stream := h\<rparr>)"
| action_answer: "k < length (ap_actions ap) \<Longrightarrow> app_step env fm tmsg ap (InAnswer k fr) (action_answered tmsg k fr ap)"
| command_answer: "k < length (ex_calls (ap_explorer ap)) \<Longrightarrow> app_step env fm tmsg ap (InCommand k el fr)
    (ap\<lparr>ap_explorer := (ap_explorer ap)\<lparr>ex_view := execute_end tmsg (ex_calls (ap_explorer ap) ! k) el fr (ex_view (ap_explorer ap)),
      ex_calls := take k (ex_calls (ap_explorer ap)) @ drop (Suc k) (ex_calls (ap_explorer ap))\<rparr>\<rparr>)"
| trace_settles: "ar_run (ap_arch ap) = Some r \<Longrightarrow> stage_settles env el t fr r (ar_trace (ap_arch ap)) = (tr, r') \<Longrightarrow>
    app_step env fm tmsg ap (InTrace el t fr) (ap\<lparr>ap_arch := (ap_arch ap)\<lparr>ar_trace := tr, ar_run := r'\<rparr>\<rparr>)"
| left_trace_settles: "k < length (ap_left ap) \<Longrightarrow>
    app_step env fm tmsg ap (InLeft k el t fr) (left_settles env k el t fr ap)"
| focus_moves: "app_step env fm tmsg ap InFocus (ap\<lparr>ap_arch := (ap_arch ap)\<lparr>ar_focus := focus_tick (ar_focus (ap_arch ap))\<rparr>\<rparr>)"
| after_render: "app_step env fm tmsg ap (InRender st1 st2) (ap\<lparr>ap_shell := (ap_shell ap)\<lparr>centre_of :=
    render_effects st1 st2 (ap_store ap) (centre_of (ap_shell ap))\<rparr>\<rparr>)"
| view_unmounts: "tab (ap_shell ap) \<noteq> i \<Longrightarrow> app_step env fm tmsg ap (InLeave i) (leave i ap)"

inductive app_run :: "vite_env \<Rightarrow> formats \<Rightarrow> (string \<Rightarrow> string) \<Rightarrow> app \<Rightarrow> app_input list \<Rightarrow> app \<Rightarrow> bool"
  for env :: vite_env and fm :: formats and tmsg :: "string \<Rightarrow> string" and ap0 :: app where
  app_start: "app_run env fm tmsg ap0 [] ap0"
| app_more: "app_run env fm tmsg ap0 is ap \<Longrightarrow> app_step env fm tmsg ap i ap' \<Longrightarrow> app_run env fm tmsg ap0 (is @ [i]) ap'"

section \<open>Gestures on the page\<close>

lemma gesture_single:
  assumes "single h" "gesture h es"
  shows "es = [] \<or> (\<exists>e \<in> offered h. es = [e])"
  using assms(2)
proof cases
  case by_click
  then have "length es \<le> 1" using assms(1) by (simp add: single_def)
  then show ?thesis using by_click by (cases es) (auto intro: offeredI)
qed (auto intro: offeredI)

lemma App_view_offers:
  assumes "App fm cs s v = Some h"
  shows "AppExplorer x \<in> offered h \<Longrightarrow> tab s = TabExplorer \<and> x \<in> offered (ExplorerView (v_explorer v))"
    and "AppRaft c \<in> offered h \<Longrightarrow> tab s = TabRaft \<and> c \<in> cluster_controls (nodes cs)"
    and "AppArch e \<in> offered h \<Longrightarrow> tab s = TabArchitecture \<and> (\<exists>h'. ArchitectureView (fm_loc fm) (nodes cs) (history cs)
      (wsStatus cs) (ar_trace (v_arch v)) (ar_focus (v_arch v)) = Some h' \<and> e \<in> offered h')"
proof -
  obtain view where view: "tab_view fm cs (tab s) v = Some view" using assms by (auto simp: App_def)
  have only: "z \<in> (\<Union>w \<in> set view. offered w)" if "z \<in> offered h" "z \<in> range AppExplorer \<union> range AppRaft \<union> range AppArch" for z
    using that assms view by (auto simp: App_def split: if_splits)
  note d = inert_offered [OF inert_DashboardView]
  show "AppExplorer x \<in> offered h \<Longrightarrow> tab s = TabExplorer \<and> x \<in> offered (ExplorerView (v_explorer v))"
    using only [of "AppExplorer x"] view by (cases "tab s") (auto simp: tab_view_def d)
  show "AppRaft c \<in> offered h \<Longrightarrow> tab s = TabRaft \<and> c \<in> cluster_controls (nodes cs)"
    using only [of "AppRaft c"] view by (cases "tab s") (auto simp: tab_view_def d offered_views)
  show "AppArch e \<in> offered h \<Longrightarrow> tab s = TabArchitecture \<and> (\<exists>h'. ArchitectureView (fm_loc fm) (nodes cs) (history cs)
      (wsStatus cs) (ar_trace (v_arch v)) (ar_focus (v_arch v)) = Some h' \<and> e \<in> offered h')"
    using only [of "AppArch e"] view by (cases "tab s") (auto simp: tab_view_def d)
qed

lemma user_event:
  assumes "live (ap_stream ap)" "app_html fm ap = Some h" "e \<in> offered h"
  shows "app_step env fm tmsg ap (InGesture modifier [e]) (dispatch env modifier e ap)"
proof -
  have "single h" using assms(2) App_offers(2) by (auto simp: app_html_def)
  obtain es where es: "gesture h es" "e \<in> set es" using assms(3) by (auto simp: offered_def)
  then have "es = [e]" using gesture_single [OF \<open>single h\<close> es(1)] by auto
  then show ?thesis using user_gesture [OF assms(1,2) es(1), of env tmsg modifier] by simp
qed

section \<open>Components\<close>

definition console_of :: "app \<Rightarrow> console" where
  "console_of ap = \<lparr>stream = ap_stream ap, actions = ap_actions ap, bell_centre = centre_of (ap_shell ap)\<rparr>"

text \<open>The events of the console that an input of the application consists of.\<close>

definition panel_key :: "bool \<Rightarrow> string \<Rightarrow> console_event list" where
  "panel_key modifier key = (if modifier \<and> toLowerCase key = ''k'' \<or> key = ''Escape'' then [ClosePanel] else [])"

fun console_event_of :: "bool \<Rightarrow> app_event \<Rightarrow> console_event list" where
  "console_event_of modifier (AppRaft c) = [Click (fst c) (snd c)]"
| "console_event_of modifier (AppShell ShBell) = [TogglePanel]"
| "console_event_of modifier (AppShell ShClosePanel) = [ClosePanel]"
| "console_event_of modifier (AppShell ShClearPanel) = [ClearPanel]"
| "console_event_of modifier (AppShell (ShInputKey key)) = panel_key modifier key"
| "console_event_of modifier _ = []"

fun console_events :: "app_input \<Rightarrow> console_event list" where
  "console_events (InMounts st0 st1 st2) = [Mounts st0 st1 st2]"
| "console_events (InGesture modifier es) = concat (map (console_event_of modifier) es)"
| "console_events (InKey modifier key) = panel_key modifier key"
| "console_events (InStream e) = [Stream e]"
| "console_events (InAnswer k fr) = [Answer k fr]"
| "console_events (InRender st1 st2) = [Render st1 st2]"
| "console_events _ = []"

text \<open>
  What an input is for the other components: for each of them a step of its own machine where
  the input concerns it, its initial state where its view is unmounted, and nothing otherwise.
\<close>

definition shell_moves :: "app_input \<Rightarrow> app \<Rightarrow> app \<Rightarrow> bool" where
  "shell_moves i ap ap' \<longleftrightarrow> (let s = ap_shell ap; s' = ap_shell ap' in
     case i of
       InMounts st0 st1 st2 \<Rightarrow> s' = s\<lparr>storage := save_mini_graph (ap_mini ap) (storage s),
         centre_of := mount_effects st0 st1 st2 (ap_store ap) (centre_of s)\<rparr>
     | InGesture modifier [AppShell e] \<Rightarrow> shell_step s s' \<and> s' = shell_handle modifier e s
     | InGesture modifier [AppMini e] \<Rightarrow> s' = s\<lparr>storage := save_mini_graph (mini_handle e (ap_mini ap)) (storage s)\<rparr>
     | InKey modifier key \<Rightarrow> shell_step s s' \<and> s' = documentKey modifier key s
     | InRender st1 st2 \<Rightarrow> s' = s\<lparr>centre_of := render_effects st1 st2 (ap_store ap) (centre_of s)\<rparr>
     | _ \<Rightarrow> s' = s)"

definition explorer_moves :: "vite_env \<Rightarrow> (string \<Rightarrow> string) \<Rightarrow> app_input \<Rightarrow> app \<Rightarrow> app \<Rightarrow> bool" where
  "explorer_moves env tmsg i ap ap' \<longleftrightarrow>
     (case i of
        InGesture modifier [AppExplorer e] \<Rightarrow>
          tab (ap_shell ap) = TabExplorer \<and> ex_step env tmsg (ap_explorer ap) (ap_explorer ap')
      | InCommand k el fr \<Rightarrow> ex_step env tmsg (ap_explorer ap) (ap_explorer ap')
      | InLeave TabExplorer \<Rightarrow> tab (ap_shell ap) \<noteq> TabExplorer \<and> ap_explorer ap' = ex_mounted
      | _ \<Rightarrow> ap_explorer ap' = ap_explorer ap)"

definition raft_moves :: "(string \<Rightarrow> string) \<Rightarrow> app_input \<Rightarrow> app \<Rightarrow> app \<Rightarrow> bool" where
  "raft_moves tmsg i ap ap' \<longleftrightarrow>
     (case i of
        InAnswer k fr \<Rightarrow>
          if ap_askers ap ! k = ap_visit ap
          then raft_done tmsg (ap_actions ap ! k) fr (ap_store ap, ap_raft ap) = (ap_store ap', ap_raft ap')
          else ap_raft ap' = ap_raft ap
      | InLeave TabRaft \<Rightarrow> tab (ap_shell ap) \<noteq> TabRaft \<and> ap_raft ap' = raft_init
      | _ \<Rightarrow> ap_raft ap' = ap_raft ap)"

definition arch_moves :: "vite_env \<Rightarrow> formats \<Rightarrow> app_input \<Rightarrow> app \<Rightarrow> app \<Rightarrow> bool" where
  "arch_moves env fm i ap ap' \<longleftrightarrow>
     (case i of
        InGesture modifier [AppArch e] \<Rightarrow>
          tab (ap_shell ap) = TabArchitecture \<and> arch_step env (fm_loc fm) (ap_arch ap) (ap_arch ap')
      | InTrace el t fr \<Rightarrow> arch_step env (fm_loc fm) (ap_arch ap) (ap_arch ap')
      | InFocus \<Rightarrow> arch_step env (fm_loc fm) (ap_arch ap) (ap_arch ap')
      | InLeave TabArchitecture \<Rightarrow> tab (ap_shell ap) \<noteq> TabArchitecture \<and> ap_arch ap' = arch_init
      | _ \<Rightarrow> ap_arch ap' = ap_arch ap)"

definition mini_moves :: "app_input \<Rightarrow> app \<Rightarrow> app \<Rightarrow> bool" where
  "mini_moves i ap ap' \<longleftrightarrow> ap_mini ap' =
     (case i of InGesture modifier [AppMini e] \<Rightarrow> mini_handle e (ap_mini ap) | _ \<Rightarrow> ap_mini ap)"

lemmas moves_defs = shell_moves_def explorer_moves_def raft_moves_def arch_moves_def mini_moves_def

lemma centre_of_keys:
  "centre_of (documentKey modifier key s) =
     (if modifier \<and> toLowerCase key = ''k'' \<or> key = ''Escape'' then setNotificationsOpen False (centre_of s) else centre_of s)"
  "centre_of (inputKey key s) = centre_of s"
proof -
  have "setNotificationsOpen False (setNotificationsOpen False c) = setNotificationsOpen False c" for c
    by (simp add: setNotificationsOpen_def Let_def)
  then show "centre_of (documentKey modifier key s) =
     (if modifier \<and> toLowerCase key = ''k'' \<or> key = ''Escape'' then setNotificationsOpen False (centre_of s) else centre_of s)"
    by (auto simp: documentKey_def setPanel_def closeSearch_def toggleSearch_def Let_def)
  have "centre_of (selectSearchItem j l s) = centre_of s" for j l by (simp add: selectSearchItem_def closeSearch_def Let_def)
  then show "centre_of (inputKey key s) = centre_of s"
    by (simp add: inputKey_def arrowUp_def arrowDown_def enterKey_def closeSearch_def Let_def)
qed

lemma console_of_shell [simp]: "console_of (ap\<lparr>ap_shell := s\<rparr>) = (console_of ap)\<lparr>bell_centre := centre_of s\<rparr>"
  by (simp add: console_of_def)

lemma console_of_others [simp]:
  "console_of (ap\<lparr>ap_explorer := x\<rparr>) = console_of ap" "console_of (ap\<lparr>ap_arch := r\<rparr>) = console_of ap"
  "console_of (ap\<lparr>ap_left := l\<rparr>) = console_of ap" "console_of (ap\<lparr>ap_mini := g\<rparr>) = console_of ap"
  "console_of (ap\<lparr>ap_raft := e\<rparr>) = console_of ap" "console_of (ap\<lparr>ap_visit := n\<rparr>) = console_of ap"
  "stream (console_of ap) = ap_stream ap" "actions (console_of ap) = ap_actions ap"
  "bell_centre (console_of ap) = centre_of (ap_shell ap)"
  by (simp_all add: console_of_def)

lemma console_same: "(console_of ap)\<lparr>bell_centre := centre_of (ap_shell ap)\<rparr> = console_of ap"
  by (simp add: console_of_def)

lemma panel_key_console:
  "console_run tmsg (console_of ap) (panel_key modifier key) (console_of (ap\<lparr>ap_shell := documentKey modifier key s\<rparr>))"
  if "centre_of s = centre_of (ap_shell ap)"
  using that by (simp add: panel_key_def centre_of_keys console_same)

lemma dispatch_console:
  "console_run tmsg (console_of ap) (console_event_of modifier e) (console_of (dispatch env modifier e ap))"
proof (cases e)
  case (AppShell x)
  show ?thesis
  proof (cases x)
    case (ShInputKey key)
    then show ?thesis using AppShell panel_key_console [of "inputKey key (ap_shell ap)" ap] by (simp add: centre_of_keys)
  qed (simp_all add: AppShell console_same setPanel_def closeSearch_def setSearchQuery_def selectSearchItem_def Let_def)
next
  case (AppRaft c)
  then show ?thesis by (simp add: start_action_def console_of_def)
next
  case (AppMini x)
  then show ?thesis by (simp add: move_mini_def Let_def console_same)
qed (simp_all add: start_command_def)

lemma raft_done_fst: "fst (raft_done tmsg p fr (s, evs)) = settle_action tmsg p fr s"
  by (simp add: raft_done_def Let_def)

lemma on_store_const: "on_store (\<lambda>_. f (hstore h)) h = on_store f h"
  by (simp add: on_store_def)

lemma answered_fields:
  "ap_stream (action_answered tmsg k fr ap) = on_store (settle_action tmsg (ap_actions ap ! k) fr) (ap_stream ap)"
  "ap_actions (action_answered tmsg k fr ap) = take k (ap_actions ap) @ drop (Suc k) (ap_actions ap)"
  "ap_shell (action_answered tmsg k fr ap) = ap_shell ap" "ap_explorer (action_answered tmsg k fr ap) = ap_explorer ap"
  "ap_arch (action_answered tmsg k fr ap) = ap_arch ap" "ap_mini (action_answered tmsg k fr ap) = ap_mini ap"
  "ap_raft (action_answered tmsg k fr ap) = (if ap_askers ap ! k = ap_visit ap
     then snd (raft_done tmsg (ap_actions ap ! k) fr (ap_store ap, ap_raft ap)) else ap_raft ap)"
  using raft_done_fst [of tmsg "ap_actions ap ! k" fr "ap_store ap" "ap_raft ap"]
    on_store_const [of "settle_action tmsg (ap_actions ap ! k) fr" "ap_stream ap"]
  by (simp_all add: action_answered_def Let_def case_prod_beta)

lemma dispatch_moves:
  assumes "app_html fm ap = Some h" "e \<in> offered h"
  shows "shell_moves (InGesture modifier [e]) ap (dispatch env modifier e ap)"
    "explorer_moves env tmsg (InGesture modifier [e]) ap (dispatch env modifier e ap)"
    "raft_moves tmsg (InGesture modifier [e]) ap (dispatch env modifier e ap)"
    "arch_moves env fm (InGesture modifier [e]) ap (dispatch env modifier e ap)"
    "mini_moves (InGesture modifier [e]) ap (dispatch env modifier e ap)"
proof -
  have h: "App fm (ap_store ap) (ap_shell ap) (app_views ap) = Some h" using assms(1) by (simp add: app_html_def)
  note offers = App_view_offers [OF h] App_offers(1) [OF h]
  show "shell_moves (InGesture modifier [e]) ap (dispatch env modifier e ap)"
  proof (cases e)
    case (AppShell x)
    then have "shell_step (ap_shell ap) (shell_handle modifier x (ap_shell ap))"
      using assms(2) offers(4) [of x] by (simp add: offers_step)
    then show ?thesis using AppShell by (simp add: shell_moves_def)
  qed (simp_all add: shell_moves_def start_action_def move_mini_def Let_def)
  show "explorer_moves env tmsg (InGesture modifier [e]) ap (dispatch env modifier e ap)"
  proof (cases e)
    case (AppExplorer x)
    then have x: "tab (ap_shell ap) = TabExplorer" "x \<in> offered (ExplorerView (ex_view (ap_explorer ap)))"
      using assms(2) offers(1) [of x] by (simp_all add: app_views_def)
    show ?thesis
    proof (cases "x = ExExecute")
      case True
      then have "execute_enabled (ex_view (ap_explorer ap))" using x(2) by (simp add: offered_ExplorerView)
      then show ?thesis using AppExplorer x True
        by (auto simp: explorer_moves_def start_command_def execute_begin_def intro: ex_start)
    qed (use AppExplorer x in \<open>simp add: explorer_moves_def ex_input\<close>)
  qed (simp_all add: explorer_moves_def start_action_def move_mini_def Let_def)
  show "raft_moves tmsg (InGesture modifier [e]) ap (dispatch env modifier e ap)"
    by (cases e) (simp_all add: raft_moves_def start_action_def move_mini_def Let_def)
  show "mini_moves (InGesture modifier [e]) ap (dispatch env modifier e ap)"
    by (cases e) (simp_all add: mini_moves_def start_action_def move_mini_def Let_def)
  show "arch_moves env fm (InGesture modifier [e]) ap (dispatch env modifier e ap)"
  proof (cases e)
    case (AppArch x)
    then show ?thesis using assms(2) offers(3) [of x] by (auto simp: arch_moves_def app_views_def intro: user)
  qed (simp_all add: arch_moves_def start_action_def move_mini_def Let_def)
qed

lemma step_gesture:
  assumes "app_step env fm tmsg ap (InGesture modifier es) ap'"
  obtains h where "app_html fm ap = Some h" "ap' = fold (dispatch env modifier) es ap" "es = [] \<or> (\<exists>e \<in> offered h. es = [e])"
  using assms
proof cases
  case (user_gesture h)
  have "single h" using user_gesture(3) App_offers(2) by (auto simp: app_html_def)
  then show ?thesis using that user_gesture gesture_single by metis
qed

text \<open>An action is started only by a control of the page for that node, which the consensus view has.\<close>

lemma clicks_offered:
  assumes "app_step env fm tmsg ap i ap'" "Click a j \<in> set (console_events i)"
  shows "tab (ap_shell ap) = TabRaft \<and> (\<exists>h. app_html fm ap = Some h \<and> AppRaft (a, j) \<in> offered h)"
proof -
  have none: "Click a j \<notin> set (panel_key modifier key)" for modifier key by (simp add: panel_key_def)
  with assms(2) obtain modifier es where i: "i = InGesture modifier es" "Click a j \<in> set (concat (map (console_event_of modifier) es))"
    by (cases i) auto
  obtain h where h: "app_html fm ap = Some h" "es = [] \<or> (\<exists>e \<in> offered h. es = [e])"
    by (rule step_gesture [OF assms(1) [unfolded i(1)]])
  with i(2) obtain e where e: "e \<in> offered h" "Click a j \<in> set (console_event_of modifier e)" by auto
  have "e = AppRaft (a, j)"
    using e(2) none by (cases "(modifier, e)" rule: console_event_of.cases) auto
  then show ?thesis using e(1) h(1) App_view_offers(2) [of fm "ap_store ap" "ap_shell ap" "app_views ap" h "(a, j)"]
    by (auto simp: app_html_def)
qed

lemma step_console:
  assumes "app_step env fm tmsg ap i ap'"
  shows "console_run tmsg (console_of ap) (console_events i) (console_of ap')"
  using assms
proof cases
  case (mount_app st0 st1 st2)
  then show ?thesis by (simp add: mounted_def)
next
  case (user_gesture h es modifier)
  have "app_step env fm tmsg ap (InGesture modifier es) ap'" using assms user_gesture(1) by simp
  then obtain e where "es = [] \<or> es = [e]" by (rule step_gesture) blast
  then show ?thesis using user_gesture(1,2) dispatch_console by auto
next
  case (key_outside modifier key)
  then show ?thesis using panel_key_console [OF refl] by simp
next
  case (stream_event e h)
  then show ?thesis by (simp add: console_of_def)
next
  case (action_answer k fr)
  then show ?thesis by (simp add: console_of_def answered_fields)
next
  case (view_unmounts t)
  then show ?thesis by (cases t) simp_all
qed (simp_all add: left_settles_def)

lemma step_moves:
  assumes "app_step env fm tmsg ap i ap'"
  shows "shell_moves i ap ap' \<and> explorer_moves env tmsg i ap ap' \<and> raft_moves tmsg i ap ap' \<and>
    arch_moves env fm i ap ap' \<and> mini_moves i ap ap'"
  using assms
proof cases
  case (user_gesture h es modifier)
  have "app_step env fm tmsg ap (InGesture modifier es) ap'" using assms user_gesture(1) by simp
  then obtain h where h: "app_html fm ap = Some h" "ap' = fold (dispatch env modifier) es ap" "es = [] \<or> (\<exists>e \<in> offered h. es = [e])"
    by (rule step_gesture)
  from h(3) show ?thesis
  proof (elim disjE bexE)
    fix e assume "e \<in> offered h" "es = [e]"
    then show ?thesis using user_gesture(1) h(2) dispatch_moves [OF h(1)] by simp
  qed (simp add: user_gesture(1) h(2) moves_defs)
next
  case (key_outside modifier key)
  then show ?thesis by (simp add: moves_defs page_key)
next
  case (action_answer k fr)
  then show ?thesis using raft_done_fst [of tmsg "ap_actions ap ! k" fr "ap_store ap" "ap_raft ap"]
    by (simp add: moves_defs answered_fields prod_eq_iff)
next
  case (command_answer k el fr)
  then show ?thesis using ex_finish [of k "ap_explorer ap" env tmsg el fr] by (simp add: moves_defs)
next
  case (trace_settles r el t fr tr r')
  then show ?thesis using settles [of "ap_arch ap" r env el t fr tr r' "fm_loc fm"] by (simp add: moves_defs)
next
  case focus_moves
  then show ?thesis using rotate [of env "fm_loc fm" "ap_arch ap"] by (simp add: moves_defs)
next
  case (view_unmounts t)
  then show ?thesis by (cases t) (simp_all add: moves_defs)
qed (simp_all add: moves_defs mounted_def left_settles_def)

section \<open>Invariants\<close>

definition app_inv :: "vite_env \<Rightarrow> app \<Rightarrow> bool" where
  "app_inv env ap \<longleftrightarrow> console_inv (console_of ap) \<and> shell_inv (ap_shell ap) \<and> ex_inv (ap_explorer ap) \<and> run_inv env (ap_arch ap)"

lemma save_mini_graph_inv: "shell_inv s \<Longrightarrow> shell_inv (s\<lparr>storage := save_mini_graph g (storage s)\<rparr>)"
  by (simp add: shell_inv_defs load_recents_def save_mini_graph_def)

lemma centre_inv: "shell_inv s \<Longrightarrow> length (notifications c) \<le> 60 \<Longrightarrow> shell_inv (s\<lparr>centre_of := c\<rparr>)"
  by (simp add: shell_inv_defs)

lemma shell_moves_inv:
  assumes "shell_moves i ap ap'" "shell_inv (ap_shell ap)"
  shows "shell_inv (ap_shell ap')"
proof -
  let ?s = "ap_shell ap"
  have bound: "length (notifications (centre_of ?s)) \<le> 60" using assms(2) by (simp add: shell_inv_def)
  note step = shell_step_inv [OF _ assms(2)] and mini = save_mini_graph_inv [OF assms(2)]
  show ?thesis
  proof (cases i)
    case (InMounts st0 st1 st2)
    have "shell_inv (?s\<lparr>storage := save_mini_graph (ap_mini ap) (storage ?s),
        centre_of := mount_effects st0 st1 st2 (ap_store ap) (centre_of ?s)\<rparr>)"
      using centre_inv [OF mini] bound by (simp add: mount_effects_def centre_bounded)
    then show ?thesis using assms(1) InMounts by (simp add: shell_moves_def Let_def)
  next
    case (InGesture modifier es)
    have "es = [] \<or> (\<exists>e. es = [e]) \<or> (\<exists>e f fs. es = e # f # fs)" by (metis list.exhaust)
    then show ?thesis
    proof (elim disjE exE)
      fix e assume es: "es = [e]"
      show ?thesis using assms step mini InGesture es by (cases e) (auto simp: shell_moves_def Let_def)
    next
      fix e f fs assume es: "es = e # f # fs"
      show ?thesis using assms InGesture es by (cases e) (auto simp: shell_moves_def Let_def)
    qed (use assms InGesture in \<open>simp add: shell_moves_def\<close>)
  next
    case (InRender st1 st2)
    have "shell_inv (?s\<lparr>centre_of := render_effects st1 st2 (ap_store ap) (centre_of ?s)\<rparr>)"
      using centre_inv [OF assms(2)] bound by (simp add: centre_bounded)
    then show ?thesis using assms(1) InRender by (simp add: shell_moves_def Let_def)
  qed (use assms step in \<open>auto simp: shell_moves_def Let_def\<close>)
qed

lemma explorer_moves_inv: "explorer_moves env tmsg i ap ap' \<Longrightarrow> ex_inv (ap_explorer ap) \<Longrightarrow> ex_inv (ap_explorer ap')"
  using ex_mount_inv ex_step_inv
  by (auto simp: explorer_moves_def ex_mounted_def split: app_input.splits list.splits app_event.splits TabId.splits)

lemma arch_moves_inv: "arch_moves env fm i ap ap' \<Longrightarrow> run_inv env (ap_arch ap) \<Longrightarrow> run_inv env (ap_arch ap')"
  using arch_init_inv arch_step_inv
  by (auto simp: arch_moves_def split: app_input.splits list.splits app_event.splits TabId.splits)

lemma app_step_inv:
  assumes "app_step env fm tmsg ap i ap'" "app_inv env ap"
  shows "app_inv env ap'"
  using assms(2) step_moves [OF assms(1)] console_run_inv [OF step_console [OF assms(1)]]
    shell_moves_inv explorer_moves_inv arch_moves_inv unfolding app_inv_def by blast

lemma app_init_console: "console_of (app_init ls recents) = console_init"
  by (simp add: app_init_def console_of_def console_init_def shell_init_def)

lemma app_init_inv:
  assumes "load_recents ls = Some recents" "distinct (map fst recents)"
  shows "app_inv env (app_init ls recents)"
  using assms console_init_inv ex_mount_inv arch_init_inv shell_init_inv [OF assms, of "centre_init (wsStatus initialState) (nodes initialState)"]
  by (simp add: app_inv_def app_init_console) (simp add: app_init_def ex_mounted_def centre_init_def)

lemma app_run_inv: "app_run env fm tmsg ap0 is ap \<Longrightarrow> app_inv env ap0 \<Longrightarrow> app_inv env ap"
  by (induction rule: app_run.induct) (auto intro: app_step_inv)

text \<open>A run of the application is a run of the console on the events of its inputs.\<close>

lemma app_run_console:
  "app_run env fm tmsg ap0 is ap \<Longrightarrow> console_run tmsg (console_of ap0) (concat (map console_events is)) (console_of ap)"
proof (induction rule: app_run.induct)
  case (app_more "is" ap i ap')
  then show ?case using step_console by (auto simp: console_run_append)
qed simp

lemma app_html_Some:
  assumes "app_inv env ap"
  obtains h where "app_html fm ap = Some h"
proof -
  have "ar_focus (ap_arch ap) < 4" using assms by (simp add: app_inv_def run_inv_def)
  then have "tab_view fm (ap_store ap) (tab (ap_shell ap)) (app_views ap) \<noteq> None"
    using ArchitectureView_Some by (cases "tab (ap_shell ap)") (auto simp: tab_view_def app_views_def)
  then show ?thesis using that by (auto simp: app_html_def App_def)
qed

section \<open>A first session\<close>

abbreviation local_env :: vite_env where
  "local_env \<equiv> \<lparr>VITE_API_BASE_URL = None, VITE_WS_BASE_URL = None\<rparr>"

abbreviation plain_formats :: formats where
  "plain_formats \<equiv> \<lparr>fm_loc = num_to_string, fm_time = num_to_string, fm_short = num_to_string, fm_now = (\<lambda>_. [])\<rparr>"

definition counted_stamp :: "nat \<Rightarrow> stamps" where
  "counted_stamp j k = (indexed_key (show_nat k) j, 0)"

definition app0 :: app where
  "app0 = app_init Map.empty default_recents"

text \<open>The application once it is mounted, after the consensus view was opened, and after node 1 was killed there.\<close>

definition app1 :: app where
  "app1 = mounted (counted_stamp 0) (counted_stamp 1) (counted_stamp 2) app0"

definition app2 :: app where
  "app2 = dispatch local_env False (AppShell (ShTab TabRaft)) app1"

definition app3 :: app where
  "app3 = dispatch local_env False (AppRaft (Kill, 1)) app2"

definition session_inputs :: "app_input list" where
  "session_inputs = [InMounts (counted_stamp 0) (counted_stamp 1) (counted_stamp 2),
     InGesture False [AppShell (ShTab TabRaft)], InGesture False [AppRaft (Kill, 1)]]"

lemma app0_facts:
  "load_recents Map.empty = Some default_recents" "distinct (map fst default_recents)"
  by (simp_all add: load_recents_def default_recents_def)

lemma app0_inv: "app_inv env app0"
  unfolding app0_def by (rule app_init_inv [OF app0_facts])

lemma session_streams:
  "ap_stream app1 = mount hook_init" "ap_stream app2 = mount hook_init" "tab (ap_shell app2) = TabRaft"
  "ap_stream app3 = on_store (begin_action Kill 1) (mount hook_init)" "tab (ap_shell app3) = TabRaft"
  by (simp_all add: app3_def app2_def app1_def app0_def app_init_def mounted_def mounted_facts start_action_def)

lemma app1_step: "app_step local_env plain_formats (\<lambda>k. k) app0 (session_inputs ! 0) app1"
  unfolding app1_def session_inputs_def by (simp add: mount_app)

lemma app2_step: "app_step local_env plain_formats (\<lambda>k. k) app1 (session_inputs ! 1) app2"
proof -
  have "app_inv local_env app1" by (rule app_step_inv [OF app1_step app0_inv])
  then obtain h where h: "app_html plain_formats app1 = Some h" by (rule app_html_Some)
  then have "AppShell (ShTab TabRaft) \<in> offered h"
    using App_offers(1) by (auto simp: app_html_def shell_offers_def)
  moreover have "live (ap_stream app1)" by (simp add: session_streams mounted_facts)
  ultimately show ?thesis using user_event [OF _ h] by (simp add: app2_def session_inputs_def del: dispatch.simps)
qed

lemma app3_step: "app_step local_env plain_formats (\<lambda>k. k) app2 (session_inputs ! 2) app3"
proof -
  have "app_inv local_env app2" by (rule app_step_inv [OF app2_step app_step_inv [OF app1_step app0_inv]])
  then obtain h where h: "app_html plain_formats app2 = Some h" by (rule app_html_Some)
  have "nodes (ap_store app2) = nodes initialState" by (simp add: session_streams mounted_facts)
  then have "AppRaft (Kill, 1) \<in> offered h"
    using h session_streams(3) by (auto simp: app_html_def App_def tab_view_def offered_views cluster_controls_def initialState_def initial_node_def)
  moreover have "live (ap_stream app2)" by (simp add: session_streams mounted_facts)
  ultimately show ?thesis using user_event [OF _ h] by (simp add: app3_def session_inputs_def del: dispatch.simps)
qed

lemma session_run: "app_run local_env plain_formats (\<lambda>k. k) (app_init Map.empty default_recents) session_inputs app3"
  using app_more [OF app_more [OF app_more [OF app_start app1_step] app2_step] app3_step]
  by (simp add: app0_def session_inputs_def)

section \<open>Properties\<close>

text \<open>
  C6 (refinement). The application is the composition of its components. Every input is, for the
  stream with its store, its actions in flight and the notification centre, the run of the
  console that the input stands for; for the shell, the explorer, the consensus view, the trace
  view and the floating graph it is one step of that component where the input is meant for it,
  the initial state where its view is unmounted, which happens only while another tab is
  selected, and no change otherwise. A view is operated only while its tab is selected, and a
  kill or restart is started only by a control that the page then offers for that node.
\<close>

theorem application_refines:
  assumes "app_step env fm tmsg ap i ap'"
  shows "console_run tmsg (console_of ap) (console_events i) (console_of ap') \<and>
    (\<forall>a j. Click a j \<in> set (console_events i) \<longrightarrow>
       tab (ap_shell ap) = TabRaft \<and> (\<exists>h. app_html fm ap = Some h \<and> AppRaft (a, j) \<in> offered h)) \<and>
    shell_moves i ap ap' \<and> explorer_moves env tmsg i ap ap' \<and> raft_moves tmsg i ap ap' \<and>
    arch_moves env fm i ap ap' \<and> mini_moves i ap ap'"
  using step_console [OF assms] clicks_offered [OF assms] step_moves [OF assms] by blast

theorem application_refines_witness:
  "console_run (\<lambda>k. k) (console_of app2) [Click Kill 1] (console_of app3) \<and> raft_moves (\<lambda>k. k) (session_inputs ! 2) app2 app3 \<and>
   shell_moves (session_inputs ! 1) app1 app2"
  using application_refines [OF app3_step] application_refines [OF app2_step]
  by (simp add: session_inputs_def del: console_run_simps)

text \<open>
  C1 (invariant). In every state the application can reach, the page can be drawn; it never offers to kill a
  node that the user forced down, and offers to restart it when the consensus view is open; the
  status in the header is the one of the stream; and history, notifications and rows keep
  within their bounds.
\<close>

theorem application_invariant:
  assumes "load_recents ls = Some recents" "distinct (map fst recents)"
    and "app_run env fm tmsg (app_init ls recents) is ap"
  shows "\<exists>h. app_html fm ap = Some h \<and> ''System Status: '' @ ws_name (wsStatus (ap_store ap)) \<in> set (texts_in h) \<and>
    (\<forall>n \<in> set (nodes (ap_store ap)). node_id n \<in> set (forcedDownNodeIds (ap_store ap)) \<longrightarrow>
       (\<forall>a. AppRaft (a, node_id n) \<in> offered h \<longleftrightarrow> a = Restart \<and> tab (ap_shell ap) = TabRaft)) \<and>
    length (history (ap_store ap)) \<le> 120 \<and> length (notifications (centre_of (ap_shell ap))) \<le> 60 \<and>
    length (ex_rows (ex_view (ap_explorer ap))) \<le> 50"
proof -
  have inv: "app_inv env ap" by (rule app_run_inv [OF assms(3) app_init_inv [OF assms(1,2)]])
  then have store: "store_inv (ap_store ap)" by (simp add: app_inv_def console_inv_def)
  obtain h where h: "app_html fm ap = Some h" by (rule app_html_Some [OF inv])
  then have H: "App fm (ap_store ap) (ap_shell ap) (app_views ap) = Some h" by (simp add: app_html_def)
  have raft: "AppRaft (a, node_id n) \<in> offered h \<longleftrightarrow> a = Restart \<and> tab (ap_shell ap) = TabRaft"
    if n: "n \<in> set (nodes (ap_store ap))" "node_id n \<in> set (forcedDownNodeIds (ap_store ap))" for a n
  proof -
    have c: "(a, node_id n) \<in> cluster_controls (nodes (ap_store ap)) \<longleftrightarrow> a = Restart"
      using raft_panel.forced_down_restart_only [OF store n] unfolding offered_views .
    have "AppRaft (a, node_id n) \<in> offered h" if "a = Restart" "tab (ap_shell ap) = TabRaft"
      using H that c by (auto simp: App_def tab_view_def offered_views)
    then show ?thesis using App_view_offers(2) [OF H] c by blast
  qed
  have "''System Status: '' @ ws_name (wsStatus (ap_store ap)) \<in> set (texts_in h)"
    using H by (auto simp: App_def header_html_def)
  with h raft inv show ?thesis
    by (auto simp: app_inv_def console_inv_def store_inv_def shell_inv_defs ex_inv_def)
qed

theorem application_invariant_witness:
  "\<exists>h. app_html plain_formats app3 = Some h \<and> AppRaft (Kill, 1) \<notin> offered h \<and> AppRaft (Restart, 1) \<in> offered h"
proof -
  let ?n = "force_down (initial_node 1 ''vaultkv-node1'' 7379 True 120)"
  have n: "?n \<in> set (nodes (ap_store app3))" "node_id ?n \<in> set (forcedDownNodeIds (ap_store app3))" "node_id ?n = 1"
    by (simp_all add: session_streams mounted_facts begin_action_def killNode_begin_def initialState_def
        add_forced_def initial_node_def)
  from application_invariant [OF app0_facts session_run] obtain h where "app_html plain_formats app3 = Some h"
    "\<forall>n \<in> set (nodes (ap_store app3)). node_id n \<in> set (forcedDownNodeIds (ap_store app3)) \<longrightarrow>
       (\<forall>a. AppRaft (a, node_id n) \<in> offered h \<longleftrightarrow> a = Restart \<and> tab (ap_shell app3) = TabRaft)" by blast
  then show ?thesis using n session_streams(5) by (metis action.distinct(1))
qed

text \<open>
  C5 (type). The page stays well formed: provided that the nodes of every snapshot the gateway sends have
  different identifiers and that the platform never makes up a notification identifier twice,
  in every state of every run rendering does not throw, the entries of every list have
  different keys, every chart reads fields that its rows have, every fill refers to a gradient
  on the page, and a click hits at most one handler.
\<close>

theorem application_page_well_formed:
  assumes "load_recents ls = Some recents" "distinct (map fst recents)"
    and "app_run env fm tmsg (app_init ls recents) is ap"
    and "\<forall>e \<in> set (concat (map console_events is)). sound_event e"
    and "fresh_stamps (concat (map stamps_of (concat (map console_events is))))"
  shows "\<exists>h. app_html fm ap = Some h \<and> well_formed h \<and> single h"
proof -
  have inv: "app_inv env ap" by (rule app_run_inv [OF assms(3) app_init_inv [OF assms(1,2)]])
  obtain h where h: "app_html fm ap = Some h" by (rule app_html_Some [OF inv])
  then have H: "App fm (ap_store ap) (ap_shell ap) (app_views ap) = Some h" by (simp add: app_html_def)
  have recents: "distinct (map fst (recentSearches (ap_shell ap)))" using inv by (simp add: app_inv_def shell_inv_defs)
  have "console_run tmsg console_init (concat (map console_events is)) (console_of ap)"
    using app_run_console [OF assms(3)] by (simp add: app_init_console)
  from console_run_keys [OF this assms(4), of "[]"] assms(5)
  have "console_keys (concat (map stamps_of (concat (map console_events is)))) (console_of ap)"
    using console_init_keys by simp
  then have "distinct (map node_id (nodes (ap_store ap)))" "distinct (map nt_id (notifications (centre_of (ap_shell ap))))"
    by (simp_all add: console_keys_def centre_keys_def)
  then show ?thesis using h well_formed_App [OF H _ recents] App_offers(2) [OF H] by blast
qed

lemma counted_stamps_fresh: "distinct js \<Longrightarrow> fresh_stamps (map counted_stamp js)"
proof (induction js)
  case (Cons j js)
  have "inj (\<lambda>k. fst (counted_stamp j k))" by (simp add: inj_on_def counted_stamp_def indexed_key_def)
  moreover have "stamp_ids (counted_stamp j) \<inter> stamp_ids (counted_stamp l) = {}" if "l \<in> set js" for l
    using Cons.prems that by (auto simp: counted_stamp_def dest: indexed_key_index)
  ultimately show ?case using Cons by (auto simp: fresh_stamps_def)
qed (simp add: fresh_stamps_def)

theorem application_page_well_formed_witness: "\<exists>h. app_html plain_formats app3 = Some h \<and> well_formed h \<and> single h"
proof -
  have "fresh_stamps (map counted_stamp [0, 1, 2])" by (rule counted_stamps_fresh) simp
  then show ?thesis using application_page_well_formed [OF app0_facts session_run] by (simp add: session_inputs_def)
qed

end
