(* ===== verification/PageConnection.thy ===== *)
theory PageConnection
  imports Connection
begin

text \<open>
  The effect of \<open>useClusterWS\<close> (\<^verbatim>\<open>frontend/src/hooks/useClusterWS.ts\<close>), the stream of the
  page set. Sockets, instances and timers are those of the theory \<open>Connection\<close>; what
  differs is the flag \<open>wsOpenRef\<close>, shared by all instances, which decides about polling, and
  the stores the snapshots go to, and the greeting sent on an open socket. The development shows that the connection part refines the
  main hook, so that its guarantees carry over, and that the flag does not. As there, the
  constructor of the socket is taken to accept the address.
\<close>

section \<open>State\<close>

text \<open>\<open>ph_sent\<close> is what was sent, with the socket it was sent on.\<close>

record 'n page_hook =
  ph_feed :: "'n page_feed"
  ph_ws :: "nat option"
  ph_wsOpen :: bool
  ph_nsock :: nat
  ph_socks :: "nat \<Rightarrow> sock"
  ph_ninst :: nat
  ph_insts :: "nat \<Rightarrow> inst"
  ph_armed :: "(nat \<times> nat) list"
  ph_nextTimer :: nat
  ph_polls :: nat
  ph_sent :: "(nat \<times> string) list"

datatype 'n page_event =
    PMount
  | PUnmount
  | PSockOpen nat
  | PSockMessage nat number "'n snapshot option"
  | PSockClose nat bool
  | PTimerFire nat
  | PPollTick
  | PPollDone number "'n snapshot option"

type_synonym 'a node_hook = "'a NodeMeta_scheme page_hook"

section \<open>Handlers\<close>

definition ph_setStatus :: "ws_status \<Rightarrow> 'n page_hook \<Rightarrow> 'n page_hook" where
  "ph_setStatus st p = p\<lparr>ph_feed := (ph_feed p)\<lparr>pf_cluster := pc_setStatus st (pf_cluster (ph_feed p))\<rparr>\<rparr>"

definition ph_set_rs :: "nat \<Rightarrow> ready \<Rightarrow> 'n page_hook \<Rightarrow> 'n page_hook" where
  "ph_set_rs k r p = p\<lparr>ph_socks := (ph_socks p)(k := (ph_socks p k)\<lparr>rs := r\<rparr>)\<rparr>"

definition ph_close_ref :: "'n page_hook \<Rightarrow> 'n page_hook" where
  "ph_close_ref p = (case ph_ws p of None \<Rightarrow> p
     | Some k \<Rightarrow> if rs (ph_socks p k) = CONNECTING \<or> rs (ph_socks p k) = OPEN then ph_set_rs k CLOSING p else p)"

definition ph_connect :: "nat \<Rightarrow> 'n page_hook \<Rightarrow> 'n page_hook" where
  "ph_connect i p =
     (if disposed (ph_insts p i) then p
      else let k = ph_nsock p;
               p1 = p\<lparr>ph_nsock := Suc k, ph_socks := (ph_socks p)(k := \<lparr>owner = i, rs = CONNECTING\<rparr>), ph_ws := Some k\<rparr>
           in (ph_setStatus WsConnecting p1)\<lparr>ph_wsOpen := False\<rparr>)"

text \<open>
  \<open>onopen\<close> and \<open>onclose\<close> of a socket that instance \<open>i\<close> opened. The greeting goes to the socket
  that \<open>ws.current\<close> holds.
\<close>

definition ph_onopen :: "nat \<Rightarrow> 'n page_hook \<Rightarrow> 'n page_hook" where
  "ph_onopen i p = (if disposed (ph_insts p i) then p
     else let p1 = ph_setStatus WsOpen (p\<lparr>ph_wsOpen := True\<rparr>) in
       case ph_ws p1 of None \<Rightarrow> p1 | Some k \<Rightarrow> p1\<lparr>ph_sent := ph_sent p1 @ [(k, ''hello'')]\<rparr>)"

definition ph_onclose :: "nat \<Rightarrow> 'n page_hook \<Rightarrow> 'n page_hook" where
  "ph_onclose i p =
     (let p0 = p\<lparr>ph_wsOpen := False\<rparr> in
      if disposed (ph_insts p0 i) then p0
      else let p1 = ph_setStatus WsClosed p0; t = ph_nextTimer p1 in
        p1\<lparr>ph_armed := ph_armed p1 @ [(t, i)], ph_nextTimer := Suc t,
           ph_insts := (ph_insts p1)(i := (ph_insts p1 i)\<lparr>reconnectTimer := Some t\<rparr>)\<rparr>)"

definition ph_onmessage :: "number \<Rightarrow> 'a NodeMeta_scheme snapshot option \<Rightarrow> 'a node_hook \<Rightarrow> 'a node_hook" where
  "ph_onmessage now parsed p =
     (case parsed of Some data \<Rightarrow> p\<lparr>ph_feed := ingest now data (ph_feed p)\<rparr> | None \<Rightarrow> p)"

definition fetchClusterSnapshot :: "'n page_hook \<Rightarrow> 'n page_hook" where
  "fetchClusterSnapshot p = p\<lparr>ph_polls := Suc (ph_polls p)\<rparr>"

text \<open>Its answer: nothing for a failed, refused or unparsable one.\<close>

definition snapshot_answer :: "number \<Rightarrow> 'a NodeMeta_scheme snapshot option \<Rightarrow> 'a node_hook \<Rightarrow> 'a node_hook" where
  "snapshot_answer now parsed p = ph_onmessage now parsed (p\<lparr>ph_polls := ph_polls p - 1\<rparr>)"

definition ph_poll_tick :: "'n page_hook \<Rightarrow> 'n page_hook" where
  "ph_poll_tick p = (if \<not> ph_wsOpen p then fetchClusterSnapshot p else p)"

definition ph_mount :: "'n page_hook \<Rightarrow> 'n page_hook" where
  "ph_mount p =
     (let i = ph_ninst p;
          p1 = p\<lparr>ph_ninst := Suc i, ph_insts := (ph_insts p)(i := \<lparr>disposed = False, reconnectTimer = None,
            pollTimer = False\<rparr>)\<rparr>;
          p2 = ph_connect i (fetchClusterSnapshot p1) in
      p2\<lparr>ph_insts := (ph_insts p2)(i := (ph_insts p2 i)\<lparr>pollTimer := True\<rparr>)\<rparr>)"

definition ph_unmount :: "nat \<Rightarrow> 'n page_hook \<Rightarrow> 'n page_hook" where
  "ph_unmount i p =
     (let p1 = p\<lparr>ph_insts := (ph_insts p)(i := (ph_insts p i)\<lparr>disposed := True\<rparr>)\<rparr>;
          p2 = (case reconnectTimer (ph_insts p1 i) of
                  Some t \<Rightarrow> p1\<lparr>ph_armed := filter (\<lambda>(u, _). u \<noteq> t) (ph_armed p1)\<rparr>
                | None \<Rightarrow> p1);
          p3 = p2\<lparr>ph_insts := (ph_insts p2)(i := (ph_insts p2 i)\<lparr>pollTimer := False\<rparr>)\<rparr> in
      ph_close_ref p3)"

definition ph_live :: "'n page_hook \<Rightarrow> bool" where
  "ph_live p \<longleftrightarrow> 0 < ph_ninst p \<and> \<not> disposed (ph_insts p (ph_ninst p - 1))"

fun ph_step :: "'a node_hook \<Rightarrow> 'a NodeMeta_scheme page_event \<Rightarrow> 'a node_hook option" where
  "ph_step p PMount = (if ph_live p then None else Some (ph_mount p))"
| "ph_step p PUnmount = (if ph_live p then Some (ph_unmount (ph_ninst p - 1) p) else None)"
| "ph_step p (PSockOpen k) =
     (if k < ph_nsock p \<and> rs (ph_socks p k) = CONNECTING
      then Some (ph_onopen (owner (ph_socks p k)) (ph_set_rs k OPEN p)) else None)"
| "ph_step p (PSockMessage k now parsed) =
     (if k < ph_nsock p \<and> rs (ph_socks p k) = OPEN then Some (ph_onmessage now parsed p) else None)"
| "ph_step p (PSockClose k failed) =
     (if k < ph_nsock p \<and> rs (ph_socks p k) \<noteq> CLOSED then
        let p1 = ph_set_rs k CLOSED p; p2 = (if failed then ph_close_ref p1 else p1)
        in Some (ph_onclose (owner (ph_socks p2 k)) p2)
      else None)"
| "ph_step p (PTimerFire t) =
     (case map_of (ph_armed p) t of None \<Rightarrow> None
      | Some i \<Rightarrow> Some (ph_connect i (p\<lparr>ph_armed := filter (\<lambda>(u, _). u \<noteq> t) (ph_armed p)\<rparr>)))"
| "ph_step p PPollTick =
     (if ph_live p \<and> pollTimer (ph_insts p (ph_ninst p - 1)) then Some (ph_poll_tick p) else None)"
| "ph_step p (PPollDone now parsed) = (if 0 < ph_polls p then Some (snapshot_answer now parsed p) else None)"

fun ph_run :: "'a node_hook \<Rightarrow> 'a NodeMeta_scheme page_event list \<Rightarrow> 'a node_hook option" where
  "ph_run p [] = Some p"
| "ph_run p (e # es) = Option.bind (ph_step p e) (\<lambda>p'. ph_run p' es)"

definition ph_init :: "'a node_hook" where
  "ph_init = \<lparr>ph_feed = \<lparr>pf_cluster = pc_initial, pf_metrics = m_initial, pf_previous = None\<rparr>, ph_ws = None,
     ph_wsOpen = False, ph_nsock = 0, ph_socks = (\<lambda>_. \<lparr>owner = 0, rs = CLOSED\<rparr>), ph_ninst = 0,
     ph_insts = (\<lambda>_. \<lparr>disposed = True, reconnectTimer = None, pollTimer = False\<rparr>),
     ph_armed = [], ph_nextTimer = 1, ph_polls = 0, ph_sent = []\<rparr>"

section \<open>Refinement of the main hook\<close>

text \<open>The connection part of a page hook, seen as a main hook.\<close>

definition same_connection :: "'n page_hook \<Rightarrow> hook \<Rightarrow> bool" where
  "same_connection p h \<longleftrightarrow> ph_ws p = wsRef h \<and> ph_nsock p = nsock h \<and> ph_socks p = socks h \<and>
     ph_ninst p = ninst h \<and> ph_insts p = insts h \<and> ph_armed p = armed h \<and> ph_nextTimer p = nextTimer h \<and>
     pc_wsStatus (pf_cluster (ph_feed p)) = wsStatus (fd_store (feed_of h))"

text \<open>The event of the main hook a page event corresponds to; snapshots and polls have none.\<close>

fun connection_event :: "'n page_event \<Rightarrow> hook_event option" where
  "connection_event PMount = Some Mount"
| "connection_event PUnmount = Some Unmount"
| "connection_event (PSockOpen k) = Some (SockOpen k)"
| "connection_event (PSockClose k failed) = Some (SockClose k failed)"
| "connection_event (PTimerFire t) = Some (TimerFire t)"
| "connection_event _ = None"

lemma ingest_status [simp]: "pc_wsStatus (pf_cluster (ingest now d f)) = pc_wsStatus (pf_cluster f)"
  by (simp add: ingest_def pc_setNodes_def Let_def split: option.split prod.split)

lemma same_set_rs: "same_connection p h \<Longrightarrow> same_connection (ph_set_rs k r p) (set_rs k r h)"
  by (simp add: same_connection_def ph_set_rs_def set_rs_def)

lemma same_close_ref: "same_connection p h \<Longrightarrow> same_connection (ph_close_ref p) (close_ref h)"
  using same_set_rs
  by (simp add: same_connection_def ph_close_ref_def close_ref_def sock_close_def ph_set_rs_def set_rs_def
      split: option.split)

lemma same_connect: "same_connection p h \<Longrightarrow> same_connection (ph_connect i p) (connect i h)"
  by (simp add: same_connection_def ph_connect_def connect_def ph_setStatus_def set_status_def
      pc_setStatus_def Let_def)

lemma same_onopen:
  "same_connection p h \<Longrightarrow> \<not> disposed (insts h i) \<Longrightarrow> same_connection (ph_onopen i p) (onopen h)"
  by (simp add: same_connection_def ph_onopen_def onopen_def ph_setStatus_def set_status_def
      pc_setStatus_def Let_def split: option.split)

lemma same_onclose: "same_connection p h \<Longrightarrow> same_connection (ph_onclose i p) (onclose i h)"
  by (simp add: same_connection_def ph_onclose_def onclose_def ph_setStatus_def set_status_def
      pc_setStatus_def Let_def)

lemma same_mount: "same_connection p h \<Longrightarrow> same_connection (ph_mount p) (mount h)"
proof -
  assume s: "same_connection p h"
  let ?i = "\<lparr>disposed = False, reconnectTimer = None, pollTimer = False\<rparr>"
  have "same_connection (ph_connect (ph_ninst p) (fetchClusterSnapshot
        (p\<lparr>ph_ninst := Suc (ph_ninst p), ph_insts := (ph_insts p)(ph_ninst p := ?i)\<rparr>)))
      (connect (ninst h) (pollCluster (h\<lparr>ninst := Suc (ninst h), insts := (insts h)(ninst h := ?i)\<rparr>)))"
    using s by (simp add: same_connection_def [of p]) (rule same_connect,
      simp add: same_connection_def fetchClusterSnapshot_def pollCluster_def)
  then show ?thesis using s by (simp add: ph_mount_def mount_def Let_def same_connection_def)
qed

lemma same_unmount: "same_connection p h \<Longrightarrow> same_connection (ph_unmount i p) (unmount i h)"
  unfolding ph_unmount_def unmount_def Let_def
  by (rule same_close_ref) (simp add: same_connection_def split: option.split)

lemma same_polls: "same_connection p h \<Longrightarrow> same_connection (p\<lparr>ph_polls := m\<rparr>) h"
  by (simp add: same_connection_def)

lemma same_onmessage: "same_connection p h \<Longrightarrow> same_connection (ph_onmessage now d p) h"
  by (simp add: same_connection_def ph_onmessage_def split: option.split)

lemma ph_step_simulates:
  assumes "ph_step p e = Some p'" "same_connection p h" "hook_inv h"
  shows "\<exists>h'. same_connection p' h' \<and>
    (case connection_event e of Some e' \<Rightarrow> hook_step h e' = Some h' | None \<Rightarrow> h' = h)"
proof -
  have lv: "ph_live p = live h" using assms(2) by (simp add: ph_live_def live_def same_connection_def)
  show ?thesis
  proof (cases e)
    case PMount
    then show ?thesis using assms(1) same_mount [OF assms(2)] lv by (simp split: if_splits)
  next
    case PUnmount
    then show ?thesis using assms(1,2) same_unmount [OF assms(2), of "ninst h - 1"] lv
      by (simp add: same_connection_def [of p h] split: if_splits)
  next
    case (PSockOpen k)
    then have k: "k < nsock h" "rs (socks h k) = CONNECTING"
      using assms by (auto simp: same_connection_def split: if_splits)
    then have "\<not> disposed (insts h (owner (socks h k)))"
      using active_sock [OF assms(3) k(1)] assms(3) by (auto simp: hook_inv_def live_ok_def live_def)
    then have "same_connection (ph_onopen (owner (socks h k)) (ph_set_rs k OPEN p)) (onopen (set_rs k OPEN h))"
      using same_set_rs [OF assms(2)] by (intro same_onopen) simp_all
    moreover have "ph_nsock p = nsock h" "ph_socks p = socks h" using assms(2) by (simp_all add: same_connection_def)
    ultimately show ?thesis using PSockOpen k assms(1) by auto
  next
    case (PSockClose k failed)
    let ?p = "if failed then ph_close_ref (ph_set_rs k CLOSED p) else ph_set_rs k CLOSED p"
    let ?h = "if failed then onerror (set_rs k CLOSED h) else set_rs k CLOSED h"
    have "same_connection ?p ?h"
      using assms(2) by (simp add: onerror_def same_close_ref same_set_rs)
    then have "same_connection (ph_onclose (owner (socks ?h k)) ?p) (onclose (owner (socks ?h k)) ?h)"
      "ph_socks ?p = socks ?h"
      by (rule same_onclose) (use \<open>same_connection ?p ?h\<close> in \<open>simp only: same_connection_def\<close>)
    moreover have "p' = ph_onclose (owner (ph_socks ?p k)) ?p" "k < ph_nsock p" "rs (ph_socks p k) \<noteq> CLOSED"
      using PSockClose assms(1) by (simp_all add: Let_def split: if_splits)
    moreover have "ph_nsock p = nsock h" "ph_socks p = socks h" using assms(2) by (simp_all add: same_connection_def)
    ultimately show ?thesis using PSockClose by (simp add: Let_def)
  next
    case (PTimerFire t)
    have "same_connection (p\<lparr>ph_armed := filter (\<lambda>(u, _). u \<noteq> t) (ph_armed p)\<rparr>)
        (h\<lparr>armed := filter (\<lambda>(u, _). u \<noteq> t) (armed h)\<rparr>)"
      using assms(2) by (simp add: same_connection_def)
    moreover have "ph_armed p = armed h" using assms(2) by (simp add: same_connection_def)
    ultimately show ?thesis using PTimerFire assms(1) same_connect by (fastforce split: option.splits)
  next
    case (PSockMessage k now d)
    then have "p' = ph_onmessage now d p" using assms(1) by (simp split: if_splits)
    then show ?thesis using PSockMessage same_onmessage [OF assms(2)] by simp
  next
    case PPollTick
    then have "p' = ph_poll_tick p" using assms(1) by (simp split: if_splits)
    then show ?thesis using PPollTick same_polls [OF assms(2)] by (simp add: ph_poll_tick_def fetchClusterSnapshot_def assms(2))
  next
    case (PPollDone now d)
    then have "p' = snapshot_answer now d p" using assms(1) by (simp split: if_splits)
    then show ?thesis using PPollDone same_onmessage [OF same_polls [OF assms(2)]] by (simp add: snapshot_answer_def)
  qed
qed


lemma ph_run_simulates:
  assumes "ph_run p es = Some p'" "same_connection p h" "hook_inv h"
  shows "\<exists>h'. hook_run h (List.map_filter connection_event es) = Some h' \<and> same_connection p' h'"
  using assms
proof (induction es arbitrary: p h)
  case Nil
  then show ?case by (simp add: List.map_filter_simps)
next
  case (Cons e es)
  from Cons.prems(1) obtain p1 where p1: "ph_step p e = Some p1" "ph_run p1 es = Some p'"
    by (auto simp: bind_eq_Some_conv)
  obtain h1 where h1: "same_connection p1 h1"
    "case connection_event e of Some e' \<Rightarrow> hook_step h e' = Some h1 | None \<Rightarrow> h1 = h"
    using ph_step_simulates [OF p1(1) Cons.prems(2,3)] by blast
  then have "hook_inv h1" using Cons.prems(3) hook_step_inv by (auto split: option.splits)
  from Cons.IH [OF p1(2) h1(1) this] h1(2) show ?case
    by (auto simp: List.map_filter_simps split: option.splits)
qed

lemma same_init: "same_connection ph_init hook_init"
  by (simp add: same_connection_def ph_init_def hook_init_def pc_initial_def initialState_def)

section \<open>Properties\<close>

text \<open>
  C14 (refinement). The page's stream refines the main one: every run of the page's hook is, on
  sockets, timers, instances and the status shown, a run of the hook of \<^verbatim>\<open>hooks.ts\<close> on the
  same connection events. Hence it, too, never loses its connection for good: a mounted page
  has an unfinished socket or exactly one reconnection armed.
\<close>

theorem page_stream_refines:
  assumes "ph_run ph_init es = Some p"
  shows "\<exists>h. hook_run hook_init (List.map_filter connection_event es) = Some h \<and> same_connection p h \<and>
    (ph_live p \<longrightarrow> (rs (ph_socks p (ph_nsock p - 1)) \<noteq> CLOSED \<and> ph_armed p = []) \<noteq>
       (rs (ph_socks p (ph_nsock p - 1)) = CLOSED \<and> length (ph_armed p) = 1))"
proof -
  obtain h where h: "hook_run hook_init (List.map_filter connection_event es) = Some h" "same_connection p h"
    using ph_run_simulates [OF assms same_init hook_init_inv] by blast
  have "hook_inv h" by (rule reachable_inv [OF h(1)])
  moreover have "ph_live p = live h" using h(2) by (simp add: ph_live_def live_def same_connection_def)
  ultimately have "ph_live p \<longrightarrow> (rs (ph_socks p (ph_nsock p - 1)) \<noteq> CLOSED \<and> ph_armed p = []) \<noteq>
       (rs (ph_socks p (ph_nsock p - 1)) = CLOSED \<and> length (ph_armed p) = 1)"
    using h(2) by (auto simp: same_connection_def hook_inv_def live_ok_def split: ready.splits)
  with h show ?thesis by blast
qed

theorem page_stream_refines_witness:
  "\<exists>p :: unit node_hook. ph_run ph_init [PMount, PSockClose 0 True] = Some p \<and> length (ph_armed p) = 1"
proof -
  obtain p :: "unit node_hook" where p: "ph_run ph_init [PMount, PSockClose 0 True] = Some p"
      "ph_live p" "rs (ph_socks p (ph_nsock p - 1)) = CLOSED"
    by (simp add: ph_init_def ph_live_def ph_mount_def ph_connect_def fetchClusterSnapshot_def Let_def
        ph_close_ref_def ph_set_rs_def ph_onclose_def ph_setStatus_def)
  from page_stream_refines [OF p(1)] p show ?thesis by auto
qed

text \<open>
  The page's polling flag is shared by all instances, and the close handler resets
  it before it asks whether its instance is disposed: the late close of a socket left over from
  an earlier mount makes the page poll although its stream is open, and it keeps doing so until
  the stream is opened anew.
\<close>

theorem stale_close_starts_polling:
  assumes "ph_live p" "pollTimer (ph_insts p (ph_ninst p - 1))"
    and "k < ph_nsock p" "rs (ph_socks p k) \<noteq> CLOSED" "disposed (ph_insts p (owner (ph_socks p k)))"
    and "rs (ph_socks p m) = OPEN" "m \<noteq> k"
  shows "\<exists>p'. ph_run p [PSockClose k False, PPollTick] = Some p' \<and>
    rs (ph_socks p' m) = OPEN \<and> ph_polls p' = Suc (ph_polls p) \<and> \<not> ph_wsOpen p'"
  using assms
  by (simp add: ph_onclose_def ph_set_rs_def ph_poll_tick_def fetchClusterSnapshot_def ph_live_def Let_def)

theorem stale_close_starts_polling_witness:
  "\<exists>p p' :: unit node_hook. ph_run ph_init [PMount, PUnmount, PMount, PSockOpen 1] = Some p \<and>
     ph_run p [PSockClose 0 False, PPollTick] = Some p' \<and> rs (ph_socks p' 1) = OPEN \<and>
     ph_polls p' = Suc (ph_polls p)"
proof -
  obtain p :: "unit node_hook" where p: "ph_run ph_init [PMount, PUnmount, PMount, PSockOpen 1] = Some p"
      "ph_live p" "pollTimer (ph_insts p (ph_ninst p - 1))" "0 < ph_nsock p" "rs (ph_socks p 0) \<noteq> CLOSED"
      "disposed (ph_insts p (owner (ph_socks p 0)))" "rs (ph_socks p 1) = OPEN"
    by (simp add: ph_init_def ph_live_def ph_mount_def ph_unmount_def ph_connect_def fetchClusterSnapshot_def
        Let_def ph_close_ref_def ph_set_rs_def ph_onopen_def ph_setStatus_def)
  from stale_close_starts_polling [OF p(2-7)] p(1) show ?thesis by fastforce
qed

end
