(* ===== verification/Spec2Isabelle.thy ===== *)
theory Spec2Isabelle
  imports Application PageConnection
begin

text \<open>
  VaultKV is a replicated key-value store: a C++ engine, a Python gateway in front of it, and an
  operator console in TypeScript (\<^verbatim>\<open>src/frontend\<close>). This development verifies the console, the
  part that keeps state in the browser, reacts to a stream of cluster snapshots and to the user,
  and sends commands to the gateway. Engine and gateway appear as the environment: every response,
  snapshot, socket event and elapsed time is an argument of the definitions.

  \<^bold>\<open>Parts of the program and their theories.\<close>

  \<^item> The language: \<open>Prelude\<close> (arrays, the interfaces \<open>bounded_log\<close> and \<open>id_set\<close>),
    \<open>JS_Number\<close> (binary64 arithmetic with infinities and NaN, rounding, decimal notation),
    \<open>JS_String\<close> (strings of Latin-1 code units, percent encoding and its inverse), \<open>JSON\<close>
    (values, conversions, \<open>stringify\<close>, outcomes of \<open>fetch\<close>), \<open>JSON_Parse\<close>
    (\<open>JSON.parse\<close> and its round trip with \<open>stringify\<close>). The two zeros of binary64 are
    identified, since no modelled code distinguishes them.
  \<^item> \<^verbatim>\<open>lib/runtimeConfig.ts\<close>: \<open>RuntimeConfig\<close>, the addresses of gateway and stream.
  \<^item> \<^verbatim>\<open>store.ts\<close>: \<open>ClusterStore\<close>. The record \<open>ClusterState\<close> is the store's state; each action
    is a definition of the same name, and the two asynchronous ones, \<open>killNode\<close> and
    \<open>restartNode\<close>, are split at their \<open>await\<close> into a part before (\<open>_begin\<close>) and after the
    answer (\<open>_settle\<close>); \<open>store_step\<close> runs any number of them at once.
  \<^item> \<^verbatim>\<open>store/clusterStore.ts\<close>, \<^verbatim>\<open>store/metricsStore.ts\<close>: \<open>PageStores\<close>, the stores of the page
    set under \<^verbatim>\<open>pages\<close>.
  \<^item> \<^verbatim>\<open>hooks.ts\<close> and \<^verbatim>\<open>hooks/useClusterWS.ts\<close>: \<open>Ingest\<close> turns snapshots into metrics, in both
    implementations; \<open>Connection\<close> is the WebSocket with reconnection and polling of the main
    hook as a state machine (\<open>hook_step\<close>), \<open>PageConnection\<close> that of the page set.
  \<^item> \<^verbatim>\<open>App.tsx\<close>: \<open>ClusterView\<close> (leader, quorum, dashboard; also \<^verbatim>\<open>pages/Dashboard.tsx\<close>,
    \<^verbatim>\<open>components/NodeCard.tsx\<close>, \<^verbatim>\<open>LagChart.tsx\<close>, \<^verbatim>\<open>OpsChart.tsx\<close>), \<open>TraceRunner\<close> and
    \<open>ArchitectureView\<close> (the request trace and the view around it), \<open>Explorer\<close> (also
    \<^verbatim>\<open>pages/Explorer.tsx\<close>, \<^verbatim>\<open>components/KeyTable.tsx\<close>), \<open>RaftViews\<close> (also
    \<^verbatim>\<open>pages/Raft.tsx\<close>), \<open>Notifications\<close>, \<open>CommandPalette\<close> (tabs, search, keyboard),
    \<open>MiniGraph\<close>.
  \<^item> The markup: \<open>Markup\<close> has the trees that components render and what the browser does with
    them (clicks that rise to the enclosing elements, keys of list entries, charts);
    \<open>Render_Dashboards\<close>, \<open>Render_Explorers\<close>, \<open>Render_Raft\<close>, \<open>Render_Architecture\<close> and
    \<open>Render_App\<close> translate what each component returns, one definition per component or
    section, with the handlers of its controls, in both \<^verbatim>\<open>App.tsx\<close> and the page set.
  \<^item> \<open>TraceSteps\<close> runs the request trace await by await, interleaved with the user.
  \<^item> \<open>Console\<close> puts the stream, the store with its actions in flight and the notification
    centre on one store, with the effects of mounts (React's strict mode runs them twice) and
    of renders; \<open>Console_Keys\<close> follows the identifiers of nodes and notifications through it.
  \<^item> \<open>Application\<close> is the whole program of \<^verbatim>\<open>App.tsx\<close>: gestures on the rendered page,
    dispatched to the handlers of the controls they hit, and everything that happens meanwhile.
    Its steps are labelled with their inputs; \<open>console_events\<close> says which events of the console
    an input consists of, and \<open>shell_moves\<close>, \<open>explorer_moves\<close>, \<open>raft_moves\<close>, \<open>arch_moves\<close> and
    \<open>mini_moves\<close> what it is for the other components. A view that is left loses its state; an
    action started there still settles in the store, and a trace started there goes on to its
    end, its request included.

  \<^bold>\<open>How code is modelled.\<close> State is a record per component, operations are functions on it. A
  handler that awaits a request is split at the await, so that other events can come between. A
  \<open>try\<close>/\<open>catch\<close> is a sum type with the thrown value on the left; the texts of the engine's
  own type errors are the parameter \<open>tmsg\<close>. Values a handler captured from its render are
  arguments. The clock, locale formatting and random identifiers are parameters, and so is the URL
  parser where the program calls it (\<open>wsUrl\<close>); how \<open>fetch\<close> resolves an address, dot segments
  included, is defined in \<open>Explorer\<close> (\<open>url_path\<close>, \<open>url_query\<close>).

  \<^bold>\<open>Interfaces.\<close> Seven components keep the most recent entries of something, in three different
  ways; the locale \<open>bounded_log\<close> states the law they share and derives what a sequence of pushes
  leaves, and each component interprets it. \<open>id_set\<close> is interpreted by the forced-down list,
  \<open>rounding\<close> by binary64 rounding. \<open>cluster_panel\<close> is the contract of a page with buttons for
  the nodes, interpreted by the three pages that have them.

  \<^bold>\<open>What is shown.\<close>

  \<^item> The store: invariants under any interleaving of actions and snapshots, accepted kills stick,
    refused ones are rolled back, success is never claimed without confirmation or the simulated
    mark, frame conditions.
  \<^item> The streams: exactly one connection or one pending reconnection, what a disposed instance can
    still do, truthful status, polling exactly during outages; the page hook refines the main
    hook.
  \<^item> Metrics: both implementations agree on every sequence of snapshots although they clamp and
    round in different orders; derived figures are ordered and never negative.
  \<^item> The views: quorum is majority, traces report what happened and send at most one request,
    keys other than \<^verbatim>\<open>.\<close> and \<^verbatim>\<open>..\<close> survive the resolution of their addresses, rows, events and
    notifications are exactly the recent ones, the election watch terminates.
  \<^item> The shell: the highlighted result exists, Enter opens it, recent entries and the placement of
    the mini graph survive a reload.
  \<^item> The pages: what a user can do on a rendered page is exactly what the state machine of the
    component allows, no click reaches two controls, lists have distinct keys, charts and fills
    refer to what exists, tables and cards show their state, no button has two requests out.
  \<^item> Compositions: the invariants hold for the application as a whole, each of its inputs is
    exactly the steps of the components it is meant for, its page stays well formed as long as
    the gateway and the platform provide different identifiers, an outage and a kill reach the
    user as notifications, the kill of the leader stops traces.
  \<^item> Defects: theorems that exhibit what the code does where it departs from its intent, such as
    overlapping rollbacks, errors of stale sockets, recovered counters shown as traffic, and
    elections reported as timed out after the kill of a follower.

  \<^bold>\<open>Bounds and fuel.\<close> \<open>shortest\<close> tries up to 17 digits, which always suffice for binary64;
  \<open>lead_zeros\<close> shifts at most 324 places, the exponent of the least positive double; the fuel
  of \<open>JSON_parse\<close> is one more than the length of the text, and every call consumes a character.
  No other definition uses fuel.

  \<^bold>\<open>What is not modelled.\<close> Styling: constant class names, sizes, colours and animation parameters
  are left out of the trees (a class that depends on the state is kept), and so is whatever the
  browser hides by style. The inside of the chart and animation libraries; of the latter the
  model knows that a view which is not selected may be unmounted, but not that a part which is
  closing can be clicked until its animation has ended. Requests of cards and of an explorer
  that were unmounted are dropped, because their answers have no effect. \<open>new WebSocket\<close> is taken
  to accept its address. The application starts from a storage whose recent entries are readable
  and distinct, as the program writes them; the code takes other entries as they are. The engine and the gateway
  (other languages, other processes); \<^verbatim>\<open>main.tsx\<close>, which mounts \<open>App\<close>, and build files. Strings
  are Latin-1, with a separate node for the five other characters of the page; the elements of a
  node array are taken at the type the code asserts for them, their identifiers and ports as
  integers.
\<close>

section \<open>Properties across the two sets of pages\<close>

text \<open>
  The three pages with buttons for the nodes are one control panel: for the same nodes, and with
  no request of a card pending, they offer the same commands, exactly one for every node.
\<close>

theorem cluster_panels_agree:
  "offered (RaftView now ns evs) = cluster_controls ns \<and>
   offered (Raft_page clock ns rows) = cluster_controls ns \<and>
   offered (Dashboard_page loc clock (s\<lparr>pc_nodes := ns\<rparr>) hist (\<lambda>_. fresh_card)) = cluster_controls ns \<and>
   (distinct (map node_id ns) \<longrightarrow> (\<forall>n \<in> set ns. \<exists>!a. (a, node_id n) \<in> cluster_controls ns))"
proof -
  have one: "\<exists>!a. (a, node_id n) \<in> cluster_controls ns" if d: "distinct (map node_id ns)" and n: "n \<in> set ns" for n
  proof (rule ex1I [of _ "if healthy n then Kill else Restart"])
    show "(if healthy n then Kill else Restart, node_id n) \<in> cluster_controls ns"
      unfolding cluster_controls_def using n by (rule image_eqI [OF refl])
  next
    fix a assume "(a, node_id n) \<in> cluster_controls ns"
    then obtain m where m: "m \<in> set ns" "node_id m = node_id n" "a = (if healthy m then Kill else Restart)"
      using raft_panel.offered_node [of a "node_id n"] unfolding offered_views by blast
    have "m = n" using inj_onD [of node_id "set ns" m n] d m(1,2) n by (simp add: distinct_map)
    then show "a = (if healthy n then Kill else Restart)" using m(3) by simp
  qed
  show ?thesis
    by (intro conjI impI ballI one offered_views dashboard_panel.offers)
qed

theorem cluster_panels_agree_witness:
  "\<exists>!a. (a, 2) \<in> cluster_controls (nodes initialState)"
proof -
  have "distinct (map node_id (nodes initialState))"
    "initial_node 2 ''vaultkv-node2'' 7380 False 145 \<in> set (nodes initialState)"
    "node_id (initial_node 2 ''vaultkv-node2'' 7380 False 145) = 2"
    by (simp_all add: initialState_def initial_node_def)
  then show ?thesis using cluster_panels_agree [of "\<lambda>_. []" "nodes initialState"] by fastforce
qed

end
